theory Spec2Isabelle
  imports Complex_Main "HOL-Library.Word"
begin

unbundle bit_operations_syntax

section \<open>JavaScript numbers and strings\<close>

text \<open>
  The colour arithmetic of \<^verbatim>\<open>colorUtils.js\<close> and \<^verbatim>\<open>colorGenerator.js\<close> runs on
  JavaScript numbers, which are IEEE doubles. A finite number is modelled as the real
  number it denotes. In \<^verbatim>\<open>normalizeHue\<close> and in the luminance of
  \<^verbatim>\<open>getContrastColor\<close> every arithmetic operation rounds its exact result to the
  nearest double, as defined below; the conversions between RGB and HSL and the offsets
  that the strategies add to a hue are computed on the exact reals. \<^verbatim>\<open>NaN\<close> and the
  infinities are not part of the colour arithmetic (on channels in 0..255 and on the
  integer hue, saturation and lightness values the generator works with, no division by
  zero occurs); the angle of a request is a number whose multiples by the indices of the
  colours are finite.
  Strings are lists of 8-bit characters, read as code units below 256.

  \<^verbatim>\<open>Math.round\<close> rounds to the nearest integer, a tie towards plus infinity.
  The remainder operator \<^verbatim>\<open>%\<close> truncates the quotient towards zero, so its result
  has the sign of the dividend.
\<close>

definition Math_round :: "real \<Rightarrow> real" where
  "Math_round x = of_int \<lfloor>x + 1 / 2\<rfloor>"

definition Math_floor :: "real \<Rightarrow> real" where
  "Math_floor x = of_int \<lfloor>x\<rfloor>"

definition Math_ceil :: "real \<Rightarrow> real" where
  "Math_ceil x = of_int \<lceil>x\<rceil>"

definition js_trunc :: "real \<Rightarrow> int" where
  "js_trunc x = (if 0 \<le> x then \<lfloor>x\<rfloor> else \<lceil>x\<rceil>)"

definition js_rem :: "real \<Rightarrow> real \<Rightarrow> real" where
  "js_rem a m = a - m * of_int (js_trunc (a / m))"

text \<open>
  The result of \<^verbatim>\<open>parseInt\<close> is a number that is \<^verbatim>\<open>NaN\<close>, an infinity or an
  integer. The integer read from the digits is rounded to the nearest double
  (53 significant bits, ties to even, overflow to infinity); minus zero is not told
  apart from zero.
\<close>

datatype intnum = NaN | PosInf | NegInf | Fin int

fun bitLength :: "nat \<Rightarrow> nat" where
  "bitLength n = (if n = 0 then 0 else Suc (bitLength (n div 2)))"

declare bitLength.simps [simp del]

definition roundToDouble :: "nat \<Rightarrow> nat option" where
  "roundToDouble a =
     (if a < 2 ^ 53 then Some a
      else let e = bitLength a - 53;
               q = a div 2 ^ e;
               r = a mod 2 ^ e;
               half = 2 ^ (e - 1);
               q' = (if half < r \<or> (r = half \<and> odd q) then q + 1 else q);
               v = q' * 2 ^ e
           in if 2 ^ 1024 \<le> v then None else Some v)"

definition toNumber :: "bool \<Rightarrow> nat \<Rightarrow> intnum" where
  "toNumber negative a =
     (case roundToDouble a of
        None \<Rightarrow> (if negative then NegInf else PosInf)
      | Some v \<Rightarrow> Fin (if negative then - int v else int v))"

text \<open>
  Rounding a real number to the nearest double. A finite double is an integer multiple
  of a power of two with a significand of at most 53 bits and an exponent of at least
  -1074. Of a positive \<open>y\<close>, \<open>binade y\<close> is the exponent \<open>e\<close> with
  \<open>2 ^ e \<le> y < 2 ^ (e + 1)\<close>; the doubles of that binade are the multiples of
  \<open>2 ^ (e - 52)\<close>, and below \<open>2 ^ (- 1022)\<close> the subnormal doubles are the multiples
  of \<open>2 ^ (- 1074)\<close>. The nearest multiple is taken, a tie going to the even one.
  Overflow to an infinity is not modelled: every number rounded below is less than 720
  in magnitude.

  The operators \<^verbatim>\<open>+\<close>, \<^verbatim>\<open>*\<close> and \<^verbatim>\<open>/\<close> round the exact result; a decimal literal
  such as \<^verbatim>\<open>0.299\<close> denotes the double nearest to it. The remainder \<^verbatim>\<open>%\<close> of
  two doubles is a double, so \<open>js_rem\<close> needs no rounding.
\<close>

definition pow2 :: "int \<Rightarrow> real" where
  "pow2 e = (if 0 \<le> e then 2 ^ nat e else 1 / 2 ^ nat (- e))"

definition binade :: "real \<Rightarrow> int" where
  "binade y =
     (if 1 \<le> y then int (bitLength (nat \<lfloor>y\<rfloor>)) - 1
      else - int (bitLength (nat \<lceil>1 / y\<rceil> - 1)))"

definition roundHalfEven :: "real \<Rightarrow> int" where
  "roundHalfEven m =
     (let f = \<lfloor>m\<rfloor>; r = m - of_int f
      in if r < 1 / 2 then f
         else if 1 / 2 < r then f + 1
         else if even f then f else f + 1)"

definition nearestDouble :: "real \<Rightarrow> real" where
  "nearestDouble y =
     (if y = 0 then 0
      else let e = max (- 1022) (binade \<bar>y\<bar>);
               ulp = pow2 (e - 52)
           in of_int (roundHalfEven (y / ulp)) * ulp)"

definition num_add :: "real \<Rightarrow> real \<Rightarrow> real" where
  "num_add a b = nearestDouble (a + b)"

definition num_mul :: "real \<Rightarrow> real \<Rightarrow> real" where
  "num_mul a b = nearestDouble (a * b)"

definition num_div :: "real \<Rightarrow> real \<Rightarrow> real" where
  "num_div a b = nearestDouble (a / b)"

definition isWhiteSpace :: "char \<Rightarrow> bool" where
  "isWhiteSpace c = (of_char c \<in> {9, 10, 11, 12, 13, 32, 160 :: nat})"

definition digitVal :: "char \<Rightarrow> nat option" where
  "digitVal c =
     (let n = of_char c :: nat in
      if 48 \<le> n \<and> n \<le> 57 then Some (n - 48)
      else if 97 \<le> n \<and> n \<le> 122 then Some (n - 87)
      else if 65 \<le> n \<and> n \<le> 90 then Some (n - 55)
      else None)"

definition isRadixDigit :: "nat \<Rightarrow> char \<Rightarrow> bool" where
  "isRadixDigit R c = (case digitVal c of None \<Rightarrow> False | Some d \<Rightarrow> d < R)"

definition digitsValue :: "nat \<Rightarrow> string \<Rightarrow> nat" where
  "digitsValue R Z =
     foldl (\<lambda>acc c. case digitVal c of None \<Rightarrow> acc | Some d \<Rightarrow> acc * R + d) 0 Z"

definition stripSign :: "string \<Rightarrow> bool \<times> string" where
  "stripSign S =
     (case S of
        [] \<Rightarrow> (False, [])
      | c # cs \<Rightarrow>
          if c = CHR ''-'' then (True, cs)
          else if c = CHR ''+'' then (False, cs)
          else (False, S))"

definition stripPrefix0x :: "string \<Rightarrow> string" where
  "stripPrefix0x S =
     (case S of
        c # d # cs \<Rightarrow> if c = CHR ''0'' \<and> (d = CHR ''x'' \<or> d = CHR ''X'') then cs else S
      | _ \<Rightarrow> S)"

definition hasPrefix0x :: "string \<Rightarrow> bool" where
  "hasPrefix0x S =
     (case S of
        c # d # cs \<Rightarrow> c = CHR ''0'' \<and> (d = CHR ''x'' \<or> d = CHR ''X'')
      | _ \<Rightarrow> False)"

text \<open>
  \<^verbatim>\<open>parseInt(string, radix)\<close> of ECMAScript; a radix of 0 stands for the absent
  argument. Leading white space is skipped, a sign is read, a \<^verbatim>\<open>0x\<close> prefix is
  removed when the radix is 16 or absent (and then selects radix 16), the longest
  prefix of digits of the radix is read, and no digit at all gives \<^verbatim>\<open>NaN\<close>.
\<close>

definition parseInt :: "string \<Rightarrow> nat \<Rightarrow> intnum" where
  "parseInt string radix =
     (let S0 = dropWhile isWhiteSpace string;
          (negative, S1) = stripSign S0
      in if radix \<noteq> 0 \<and> (radix < 2 \<or> 36 < radix) then NaN
         else
           let stripPrefix = (radix = 0 \<or> radix = 16);
               R = (if radix = 0 then (if hasPrefix0x S1 then 16 else 10) else radix);
               S = (if stripPrefix then stripPrefix0x S1 else S1);
               Z = takeWhile (isRadixDigit R) S
           in if Z = [] then NaN else toNumber negative (digitsValue R Z))"

text \<open>\<^verbatim>\<open>ToInt32\<close>, applied by the operators \<^verbatim>\<open>>>\<close> and \<^verbatim>\<open>&\<close> to their operands.\<close>

definition ToInt32 :: "intnum \<Rightarrow> 32 word" where
  "ToInt32 x = (case x of Fin n \<Rightarrow> word_of_int n | _ \<Rightarrow> 0)"

text \<open>
  \<^verbatim>\<open>Number.prototype.toString(radix)\<close> on a natural number, with lowercase
  letters for the digits from ten on.
\<close>

definition digitChar :: "nat \<Rightarrow> char" where
  "digitChar d = (if d < 10 then char_of (48 + d) else char_of (87 + d))"

fun natToString :: "nat \<Rightarrow> nat \<Rightarrow> string" where
  "natToString R n =
     (if R < 2 \<or> n < R then [digitChar n]
      else natToString R (n div R) @ [digitChar (n mod R)])"

declare natToString.simps [simp del]

definition intToString :: "int \<Rightarrow> string" where
  "intToString n = (if n < 0 then CHR ''-'' # natToString 10 (nat (- n)) else natToString 10 (nat n))"

text \<open>\<^verbatim>\<open>String.prototype.toLowerCase\<close> on code units below 256.\<close>

definition lowerChar :: "char \<Rightarrow> char" where
  "lowerChar c =
     (let n = of_char c :: nat in
      if (65 \<le> n \<and> n \<le> 90) \<or> (192 \<le> n \<and> n \<le> 222 \<and> n \<noteq> 215) then char_of (n + 32) else c)"

definition toLowerCase :: "string \<Rightarrow> string" where
  "toLowerCase s = map lowerChar s"

section \<open>Colour conversions (colorUtils.js)\<close>

record rgb =
  rgb_r :: real
  rgb_g :: real
  rgb_b :: real

record hsl =
  hsl_h :: real
  hsl_s :: real
  hsl_l :: real

definition stripHash :: "string \<Rightarrow> string" where
  "stripHash hex = (case hex of [] \<Rightarrow> [] | c # cs \<Rightarrow> if c = CHR ''#'' then cs else hex)"

definition channel :: "32 word \<Rightarrow> real" where
  "channel w = of_int (sint w)"

definition hexToRgb :: "string \<Rightarrow> rgb" where
  "hexToRgb hex =
     (let cleanHex = stripHash hex;
          bigint = ToInt32 (parseInt cleanHex 16)
      in \<lparr>rgb_r = channel (signed_drop_bit 16 bigint AND 255),
          rgb_g = channel (signed_drop_bit 8 bigint AND 255),
          rgb_b = channel (bigint AND 255)\<rparr>)"

definition toHex :: "real \<Rightarrow> string" where
  "toHex n =
     (let hex = natToString 16 (nat \<lfloor>Math_round (max 0 (min 255 n))\<rfloor>)
      in if length hex = 1 then CHR ''0'' # hex else hex)"

definition rgbToHex :: "real \<Rightarrow> real \<Rightarrow> real \<Rightarrow> string" where
  "rgbToHex r g b = CHR ''#'' # toHex r @ toHex g @ toHex b"

definition rgbToHsl :: "real \<Rightarrow> real \<Rightarrow> real \<Rightarrow> hsl" where
  "rgbToHsl r0 g0 b0 =
     (let r = r0 / 255; g = g0 / 255; b = b0 / 255;
          mx = max r (max g b);
          mn = min r (min g b);
          l = (mx + mn) / 2;
          (h, s) =
            (if mx = mn then (0, 0)
             else
               let d = mx - mn;
                   s = (if l > 1 / 2 then d / (2 - mx - mn) else d / (mx + mn));
                   h = (if mx = r then ((g - b) / d + (if g < b then 6 else 0)) / 6
                        else if mx = g then ((b - r) / d + 2) / 6
                        else ((r - g) / d + 4) / 6)
               in (h, s))
      in \<lparr>hsl_h = Math_round (h * 360),
          hsl_s = Math_round (s * 100),
          hsl_l = Math_round (l * 100)\<rparr>)"

definition hue2rgb :: "real \<Rightarrow> real \<Rightarrow> real \<Rightarrow> real" where
  "hue2rgb p q t0 =
     (let t1 = (if t0 < 0 then t0 + 1 else t0);
          t = (if t1 > 1 then t1 - 1 else t1)
      in if t < 1 / 6 then p + (q - p) * 6 * t
         else if t < 1 / 2 then q
         else if t < 2 / 3 then p + (q - p) * (2 / 3 - t) * 6
         else p)"

definition hslToRgb :: "real \<Rightarrow> real \<Rightarrow> real \<Rightarrow> rgb" where
  "hslToRgb h0 s0 l0 =
     (let h = h0 / 360; s = s0 / 100; l = l0 / 100;
          (r, g, b) =
            (if s = 0 then (l, l, l)
             else
               let q = (if l < 1 / 2 then l * (1 + s) else l + s - l * s);
                   p = 2 * l - q
               in (hue2rgb p q (h + 1 / 3), hue2rgb p q h, hue2rgb p q (h - 1 / 3)))
      in \<lparr>rgb_r = Math_round (r * 255),
          rgb_g = Math_round (g * 255),
          rgb_b = Math_round (b * 255)\<rparr>)"

definition hexToHsl :: "string \<Rightarrow> hsl" where
  "hexToHsl hex = (let c = hexToRgb hex in rgbToHsl (rgb_r c) (rgb_g c) (rgb_b c))"

definition hslToHex :: "real \<Rightarrow> real \<Rightarrow> real \<Rightarrow> string" where
  "hslToHex h s l = (let c = hslToRgb h s l in rgbToHex (rgb_r c) (rgb_g c) (rgb_b c))"

text \<open>
  \<^verbatim>\<open>normalizeHue\<close> is \<^verbatim>\<open>((hue % 360) + 360) % 360\<close>: the two remainders are exact
  and the sum is rounded. The luminance of \<^verbatim>\<open>getContrastColor\<close> is
  \<^verbatim>\<open>(0.299 * r + 0.587 * g + 0.114 * b) / 255\<close>, evaluated from left to right with a
  rounding after each of its six operations.
\<close>

definition normalizeHue :: "real \<Rightarrow> real" where
  "normalizeHue hue = js_rem (num_add (js_rem hue 360) 360) 360"


text \<open>
  \<^verbatim>\<open>Math.random\<close> is modelled by explicit state: the state is the sequence of
  the numbers that the coming calls return, and a call takes the first one.
\<close>

type_synonym rng = "nat \<Rightarrow> real"

definition Math_random :: "rng \<Rightarrow> real \<times> rng" where
  "Math_random src = (src 0, \<lambda>n. src (Suc n))"

definition randomHsl :: "rng \<Rightarrow> hsl \<times> rng" where
  "randomHsl g0 =
     (let (u1, g1) = Math_random g0;
          (u2, g2) = Math_random g1;
          (u3, g3) = Math_random g2
      in (\<lparr>hsl_h = Math_floor (u1 * 360),
           hsl_s = Math_floor (u2 * 40) + 50,
           hsl_l = Math_floor (u3 * 30) + 35\<rparr>, g3))"

section \<open>Harmony strategies (colorGenerator.js)\<close>

definition HARMONY_TYPES :: "string list" where
  "HARMONY_TYPES =
     [''complementary'', ''analogous'', ''triadic'', ''split-complementary'', ''tetradic'',
      ''monochromatic'', ''square'', ''double-complementary'', ''custom'', ''random'']"

text \<open>
  Every strategy takes the base colour and the number of colours; the generator calls
  them with a number between 2 and 6. The \<^verbatim>\<open>while\<close> and \<^verbatim>\<open>for\<close> loops that push
  onto \<^verbatim>\<open>colors\<close> are recursive functions on the list built so far, and
  \<^verbatim>\<open>colors.slice(0, count)\<close> is \<^const>\<open>take\<close>.
\<close>

function complementaryLoop :: "hsl \<Rightarrow> hsl \<Rightarrow> nat \<Rightarrow> hsl list \<Rightarrow> hsl list" where
  "complementaryLoop baseHsl complement count colors =
     (if length colors < count then
        let variation = (if length colors mod 2 = 0 then baseHsl else complement)
        in complementaryLoop baseHsl complement count
             (colors @
              [\<lparr>hsl_h = hsl_h variation,
                hsl_s = max 20 (hsl_s variation - real (length colors) * 10),
                hsl_l = min 80 (hsl_l variation + real (length colors) * 8)\<rparr>])
      else colors)"
  by pat_completeness auto
termination
  by (relation "measure (\<lambda>(baseHsl, complement, count, colors). count - length colors)") auto

declare complementaryLoop.simps [simp del]

definition generateComplementary :: "hsl \<Rightarrow> nat \<Rightarrow> hsl list" where
  "generateComplementary baseHsl count =
     (let complement = baseHsl\<lparr>hsl_h := normalizeHue (hsl_h baseHsl + 180)\<rparr>;
          colors = [baseHsl, complement]
      in take count (complementaryLoop baseHsl complement count colors))"

function analogousLoop :: "hsl \<Rightarrow> nat \<Rightarrow> nat \<Rightarrow> hsl list \<Rightarrow> hsl list" where
  "analogousLoop baseHsl count i colors =
     (if i < count then
        let angleStep = 30;
            direction = (if i mod 2 = 1 then 1 else - 1);
            steps = Math_ceil (real i / 2)
        in analogousLoop baseHsl count (i + 1)
             (colors @
              [baseHsl\<lparr>hsl_h := normalizeHue (hsl_h baseHsl + angleStep * steps * direction),
                       hsl_s := max 30 (hsl_s baseHsl - real i * 5),
                       hsl_l := max 25 (min 75 (hsl_l baseHsl + (real (i mod 3) - 1) * 10))\<rparr>])
      else colors)"
  by pat_completeness auto
termination
  by (relation "measure (\<lambda>(baseHsl, count, i, colors). count - i)") auto

declare analogousLoop.simps [simp del]

definition generateAnalogous :: "hsl \<Rightarrow> nat \<Rightarrow> hsl list" where
  "generateAnalogous baseHsl count = take count (analogousLoop baseHsl count 1 [baseHsl])"

text \<open>
  The five strategies with three or four anchor hues share the shape of their loop:
  the colour at index \<^verbatim>\<open>colors.length % n\<close> is varied by a saturation decrease
  with a floor and a lightness increase with a ceiling. The loop starts from the
  list of the anchors, so the index is in range.
\<close>

function triadicLoop :: "nat \<Rightarrow> hsl list \<Rightarrow> hsl list" where
  "triadicLoop count colors =
     (if length colors < count then
        let baseIndex = length colors mod 3;
            base = colors ! baseIndex
        in triadicLoop count
             (colors @
              [\<lparr>hsl_h = hsl_h base,
                hsl_s = max 30 (hsl_s base - 15),
                hsl_l = min 75 (hsl_l base + 15)\<rparr>])
      else colors)"
  by pat_completeness auto
termination
  by (relation "measure (\<lambda>(count, colors). count - length colors)") auto

declare triadicLoop.simps [simp del]

definition generateTriadic :: "hsl \<Rightarrow> nat \<Rightarrow> hsl list" where
  "generateTriadic baseHsl count =
     (let colors =
            [baseHsl,
             baseHsl\<lparr>hsl_h := normalizeHue (hsl_h baseHsl + 120)\<rparr>,
             baseHsl\<lparr>hsl_h := normalizeHue (hsl_h baseHsl + 240)\<rparr>]
      in take count (triadicLoop count colors))"

function splitComplementaryLoop :: "nat \<Rightarrow> hsl list \<Rightarrow> hsl list" where
  "splitComplementaryLoop count colors =
     (if length colors < count then
        let baseIndex = length colors mod 3;
            base = colors ! baseIndex
        in splitComplementaryLoop count
             (colors @
              [\<lparr>hsl_h = hsl_h base,
                hsl_s = max 30 (hsl_s base - 20),
                hsl_l = min 80 (hsl_l base + 10)\<rparr>])
      else colors)"
  by pat_completeness auto
termination
  by (relation "measure (\<lambda>(count, colors). count - length colors)") auto

declare splitComplementaryLoop.simps [simp del]

definition generateSplitComplementary :: "hsl \<Rightarrow> nat \<Rightarrow> hsl list" where
  "generateSplitComplementary baseHsl count =
     (let colors =
            [baseHsl,
             baseHsl\<lparr>hsl_h := normalizeHue (hsl_h baseHsl + 150)\<rparr>,
             baseHsl\<lparr>hsl_h := normalizeHue (hsl_h baseHsl + 210)\<rparr>]
      in take count (splitComplementaryLoop count colors))"

function tetradicLoop :: "nat \<Rightarrow> hsl list \<Rightarrow> hsl list" where
  "tetradicLoop count colors =
     (if length colors < count then
        let baseIndex = length colors mod 4;
            base = colors ! baseIndex
        in tetradicLoop count
             (colors @
              [\<lparr>hsl_h = hsl_h base,
                hsl_s = max 30 (hsl_s base - 15),
                hsl_l = min 75 (hsl_l base + 12)\<rparr>])
      else colors)"
  by pat_completeness auto
termination
  by (relation "measure (\<lambda>(count, colors). count - length colors)") auto

declare tetradicLoop.simps [simp del]

definition generateTetradic :: "hsl \<Rightarrow> nat \<Rightarrow> hsl list" where
  "generateTetradic baseHsl count =
     (let colors =
            [baseHsl,
             baseHsl\<lparr>hsl_h := normalizeHue (hsl_h baseHsl + 60)\<rparr>,
             baseHsl\<lparr>hsl_h := normalizeHue (hsl_h baseHsl + 180)\<rparr>,
             baseHsl\<lparr>hsl_h := normalizeHue (hsl_h baseHsl + 240)\<rparr>]
      in take count (tetradicLoop count colors))"

function monochromaticLoop :: "hsl \<Rightarrow> nat \<Rightarrow> nat \<Rightarrow> hsl list \<Rightarrow> hsl list" where
  "monochromaticLoop baseHsl count i colors =
     (if i < count then
        let lightnessStep = 60 / real count;
            saturationVariation = (if i mod 2 = 0 then - 10 else 10) * Math_ceil (real i / 2)
        in monochromaticLoop baseHsl count (i + 1)
             (colors @
              [\<lparr>hsl_h = hsl_h baseHsl,
                hsl_s = max 20 (min 90 (hsl_s baseHsl + saturationVariation)),
                hsl_l = max 20 (min 80 (20 + real i * lightnessStep))\<rparr>])
      else colors)"
  by pat_completeness auto
termination
  by (relation "measure (\<lambda>(baseHsl, count, i, colors). count - i)") auto

declare monochromaticLoop.simps [simp del]

definition generateMonochromatic :: "hsl \<Rightarrow> nat \<Rightarrow> hsl list" where
  "generateMonochromatic baseHsl count =
     take count (monochromaticLoop baseHsl count 1 [baseHsl])"

function squareLoop :: "nat \<Rightarrow> hsl list \<Rightarrow> hsl list" where
  "squareLoop count colors =
     (if length colors < count then
        let baseIndex = length colors mod 4;
            base = colors ! baseIndex
        in squareLoop count
             (colors @
              [\<lparr>hsl_h = hsl_h base,
                hsl_s = max 30 (hsl_s base - 20),
                hsl_l = min 75 (hsl_l base + 15)\<rparr>])
      else colors)"
  by pat_completeness auto
termination
  by (relation "measure (\<lambda>(count, colors). count - length colors)") auto

declare squareLoop.simps [simp del]

definition generateSquare :: "hsl \<Rightarrow> nat \<Rightarrow> hsl list" where
  "generateSquare baseHsl count =
     (let colors =
            [baseHsl,
             baseHsl\<lparr>hsl_h := normalizeHue (hsl_h baseHsl + 90)\<rparr>,
             baseHsl\<lparr>hsl_h := normalizeHue (hsl_h baseHsl + 180)\<rparr>,
             baseHsl\<lparr>hsl_h := normalizeHue (hsl_h baseHsl + 270)\<rparr>]
      in take count (squareLoop count colors))"

function doubleComplementaryLoop :: "nat \<Rightarrow> hsl list \<Rightarrow> hsl list" where
  "doubleComplementaryLoop count colors =
     (if length colors < count then
        let baseIndex = length colors mod 4;
            base = colors ! baseIndex
        in doubleComplementaryLoop count
             (colors @
              [\<lparr>hsl_h = hsl_h base,
                hsl_s = max 30 (hsl_s base - 15),
                hsl_l = min 80 (hsl_l base + 10)\<rparr>])
      else colors)"
  by pat_completeness auto
termination
  by (relation "measure (\<lambda>(count, colors). count - length colors)") auto

declare doubleComplementaryLoop.simps [simp del]

definition generateDoubleComplementary :: "hsl \<Rightarrow> nat \<Rightarrow> hsl list" where
  "generateDoubleComplementary baseHsl count =
     (let colors =
            [baseHsl,
             baseHsl\<lparr>hsl_h := normalizeHue (hsl_h baseHsl + 30)\<rparr>,
             baseHsl\<lparr>hsl_h := normalizeHue (hsl_h baseHsl + 180)\<rparr>,
             baseHsl\<lparr>hsl_h := normalizeHue (hsl_h baseHsl + 210)\<rparr>]
      in take count (doubleComplementaryLoop count colors))"

function customLoop :: "hsl \<Rightarrow> nat \<Rightarrow> real \<Rightarrow> nat \<Rightarrow> hsl list \<Rightarrow> hsl list" where
  "customLoop baseHsl count angle i colors =
     (if i < count then
        customLoop baseHsl count angle (i + 1)
          (colors @
           [baseHsl\<lparr>hsl_h := normalizeHue (hsl_h baseHsl + angle * real i),
                    hsl_s := max 30 (hsl_s baseHsl - real i * 5),
                    hsl_l := max 25 (min 75 (hsl_l baseHsl + (real (i mod 3) - 1) * 8))\<rparr>])
      else colors)"
  by pat_completeness auto
termination
  by (relation "measure (\<lambda>(baseHsl, count, angle, i, colors). count - i)") auto

declare customLoop.simps [simp del]

definition generateCustom :: "hsl \<Rightarrow> nat \<Rightarrow> real \<Rightarrow> hsl list" where
  "generateCustom baseHsl count angle = take count (customLoop baseHsl count angle 1 [baseHsl])"

function randomLoop :: "nat \<Rightarrow> nat \<Rightarrow> hsl list \<Rightarrow> rng \<Rightarrow> hsl list \<times> rng" where
  "randomLoop count i colors g =
     (if i < count then
        let (c, g') = randomHsl g
        in randomLoop count (i + 1) (colors @ [c]) g'
      else (colors, g))"
  by pat_completeness auto
termination
  by (relation "measure (\<lambda>(count, i, colors, g). count - i)") auto

declare randomLoop.simps [simp del]

definition generateRandom :: "hsl \<Rightarrow> nat \<Rightarrow> rng \<Rightarrow> hsl list \<times> rng" where
  "generateRandom baseHsl count g = randomLoop count 1 [baseHsl] g"

section \<open>The palette generator\<close>

text \<open>
  The options object: a field that is absent is \<^const>\<open>None\<close> and takes the default
  of the destructuring pattern. The count is a string, or a number holding an integer
  below \<open>2\<^sup>5\<^sup>3\<close> in absolute value, which \<^verbatim>\<open>parseInt\<close> reads from its
  decimal digits; the angle is a finite number.
\<close>

datatype count_arg = CountNumber int | CountString string

record options =
  opt_harmony :: "string option"
  opt_count :: "count_arg option"
  opt_baseColor :: "string option"
  opt_angle :: "real option"

record color =
  color_hex :: string
  color_hsl :: hsl
  color_role :: string

record palette =
  pal_harmony :: string
  pal_count :: nat
  pal_baseColor :: string
  pal_colors :: "color list"

definition countToString :: "count_arg \<Rightarrow> string" where
  "countToString c = (case c of CountNumber n \<Rightarrow> intToString n | CountString s \<Rightarrow> s)"

text \<open>The operator \<^verbatim>\<open>||\<close> on a number: \<^verbatim>\<open>NaN\<close> and zero are falsy.\<close>

definition orDefault :: "intnum \<Rightarrow> int \<Rightarrow> intnum" where
  "orDefault x d = (case x of NaN \<Rightarrow> Fin d | Fin n \<Rightarrow> if n = 0 then Fin d else Fin n | _ \<Rightarrow> x)"

fun Math_min :: "intnum \<Rightarrow> intnum \<Rightarrow> intnum" where
  "Math_min NaN y = NaN"
| "Math_min x NaN = NaN"
| "Math_min NegInf y = NegInf"
| "Math_min x NegInf = NegInf"
| "Math_min PosInf y = y"
| "Math_min x PosInf = x"
| "Math_min (Fin a) (Fin b) = Fin (min a b)"

fun Math_max :: "intnum \<Rightarrow> intnum \<Rightarrow> intnum" where
  "Math_max NaN y = NaN"
| "Math_max x NaN = NaN"
| "Math_max PosInf y = PosInf"
| "Math_max x PosInf = PosInf"
| "Math_max NegInf y = y"
| "Math_max x NegInf = x"
| "Math_max (Fin a) (Fin b) = Fin (max a b)"

definition colorCountOf :: "count_arg \<Rightarrow> intnum" where
  "colorCountOf c = Math_max (Fin 2) (Math_min (Fin 6) (orDefault (parseInt (countToString c) 0) 5))"

text \<open>The length that a number stands for; the colour count is always an integer from 2 to 6.\<close>

definition lengthOf :: "intnum \<Rightarrow> nat" where
  "lengthOf x = (case x of Fin n \<Rightarrow> nat n | _ \<Rightarrow> 0)"

definition roleOf :: "nat \<Rightarrow> string" where
  "roleOf index = (if index = 0 then ''primary'' else ''accent-'' @ natToString 10 index)"

definition toColor :: "nat \<times> hsl \<Rightarrow> color" where
  "toColor p =
     (case p of (index, c) \<Rightarrow>
        \<lparr>color_hex = hslToHex (hsl_h c) (hsl_s c) (hsl_l c),
         color_hsl = c,
         color_role = roleOf index\<rparr>)"

definition strategy :: "string \<Rightarrow> hsl \<Rightarrow> nat \<Rightarrow> real \<Rightarrow> rng \<Rightarrow> hsl list \<times> rng" where
  "strategy name baseHsl colorCount angle g =
     (if name = ''complementary'' then (generateComplementary baseHsl colorCount, g)
      else if name = ''analogous'' then (generateAnalogous baseHsl colorCount, g)
      else if name = ''triadic'' then (generateTriadic baseHsl colorCount, g)
      else if name = ''split-complementary'' then (generateSplitComplementary baseHsl colorCount, g)
      else if name = ''tetradic'' then (generateTetradic baseHsl colorCount, g)
      else if name = ''monochromatic'' then (generateMonochromatic baseHsl colorCount, g)
      else if name = ''square'' then (generateSquare baseHsl colorCount, g)
      else if name = ''double-complementary'' then (generateDoubleComplementary baseHsl colorCount, g)
      else if name = ''custom'' then (generateCustom baseHsl colorCount angle, g)
      else generateRandom baseHsl colorCount g)"

definition generatePalette :: "options \<Rightarrow> rng \<Rightarrow> palette \<times> rng" where
  "generatePalette opts g0 =
     (let harmony = (case opt_harmony opts of None \<Rightarrow> ''random'' | Some s \<Rightarrow> s);
          count = (case opt_count opts of None \<Rightarrow> CountNumber 5 | Some c \<Rightarrow> c);
          angle = (case opt_angle opts of None \<Rightarrow> 45 | Some a \<Rightarrow> a);
          colorCount = lengthOf (colorCountOf count);
          (baseHsl, g1) =
            (case opt_baseColor opts of
               None \<Rightarrow> randomHsl g0
             | Some baseColor \<Rightarrow> if baseColor = [] then randomHsl g0 else (hexToHsl baseColor, g0));
          (hslColors, g2) = strategy (toLowerCase harmony) baseHsl colorCount angle g1;
          colors = map toColor (enumerate 0 hslColors)
      in (\<lparr>pal_harmony = toLowerCase harmony,
           pal_count = colorCount,
           pal_baseColor = color_hex (hd colors),
           pal_colors = colors\<rparr>, g2))"

section \<open>Vocabulary of the properties\<close>

text \<open>
  A six-digit hex colour is a string of six hexadecimal digits, in either letter case,
  written with or without a leading \<^verbatim>\<open>#\<close>. Its red, green and blue channels are
  the values of the three pairs of digits.
\<close>

definition isHexDigit :: "char \<Rightarrow> bool" where
  "isHexDigit c = (c \<in> set ''0123456789abcdefABCDEF'')"

definition hexDigitValue :: "char \<Rightarrow> nat" where
  "hexDigitValue c =
     (let n = of_char c :: nat in if n \<le> 57 then n - 48 else if n \<le> 70 then n - 55 else n - 87)"

definition hexDigits6 :: "string \<Rightarrow> bool" where
  "hexDigits6 ds = (length ds = 6 \<and> list_all isHexDigit ds)"

definition channelsOf :: "string \<Rightarrow> nat \<times> nat \<times> nat" where
  "channelsOf ds =
     (16 * hexDigitValue (ds ! 0) + hexDigitValue (ds ! 1),
      16 * hexDigitValue (ds ! 2) + hexDigitValue (ds ! 3),
      16 * hexDigitValue (ds ! 4) + hexDigitValue (ds ! 5))"

text \<open>
  A source of random numbers that returns the same number at every call, and the
  property of a source that every number it returns lies in the half-open unit
  interval, as the results of \<^verbatim>\<open>Math.random\<close> do.
\<close>

definition constRng :: "real \<Rightarrow> rng" where
  "constRng u = (\<lambda>n. u)"


text \<open>The nine harmonies with anchor hues: every identifier but \<^verbatim>\<open>random\<close>.\<close>

definition anchorHarmonies :: "string list" where
  "anchorHarmonies = butlast HARMONY_TYPES"

text \<open>
  The hue, saturation and lightness that \<^verbatim>\<open>rgbToHsl\<close> computes from channels
  scaled to the unit interval, before it scales and rounds them.
\<close>

definition hueOf :: "real \<Rightarrow> real \<Rightarrow> real \<Rightarrow> real" where
  "hueOf R G B =
     (let mx = max R (max G B); mn = min R (min G B); d = mx - mn
      in if mx = mn then 0
         else if mx = R then ((G - B) / d + (if G < B then 6 else 0)) / 6
         else if mx = G then ((B - R) / d + 2) / 6
         else ((R - G) / d + 4) / 6)"

definition ligOf :: "real \<Rightarrow> real \<Rightarrow> real \<Rightarrow> real" where
  "ligOf R G B = (max R (max G B) + min R (min G B)) / 2"

definition satOf :: "real \<Rightarrow> real \<Rightarrow> real \<Rightarrow> real" where
  "satOf R G B =
     (let mx = max R (max G B); mn = min R (min G B); d = mx - mn
      in if mx = mn then 0
         else if ligOf R G B > 1 / 2 then d / (2 - mx - mn) else d / (mx + mn))"



section \<open>Rounding to the nearest double\<close>

text \<open>
  The number of bits of a positive integer brackets it between two powers of two, so
  the binade of a positive number is not above the number.
\<close>

lemma bitLength_bounds:
  "n \<noteq> 0 \<Longrightarrow> 2 ^ (bitLength n - 1) \<le> n" "n < 2 ^ bitLength n"
proof (induction n rule: bitLength.induct)
  case (1 n)
  {
    assume n: "n \<noteq> 0"
    show "2 ^ (bitLength n - 1) \<le> n"
    proof (cases "n div 2 = 0")
      case True
      then have "bitLength (n div 2) = 0" by (simp add: bitLength.simps)
      then show ?thesis using n by (simp add: bitLength.simps[of n])
    next
      case False
      then have "2 ^ (bitLength (n div 2) - 1) \<le> n div 2" using "1.IH"(1) n by simp
      moreover have "bitLength (n div 2) \<noteq> 0" using False by (simp add: bitLength.simps[of "n div 2"])
      ultimately have "2 ^ bitLength (n div 2) \<le> 2 * (n div 2)"
        by (cases "bitLength (n div 2)") simp_all
      then show ?thesis using n by (simp add: bitLength.simps[of n])
    qed
  }
  show "n < 2 ^ bitLength n"
  proof (cases "n = 0")
    case True
    then show ?thesis by simp
  next
    case False
    then have "n div 2 < 2 ^ bitLength (n div 2)" using "1.IH"(2) by simp
    then show ?thesis using False by (simp add: bitLength.simps[of n])
  qed
qed


lemma pow2_pos: "0 < pow2 e"
  by (simp add: pow2_def)


lemma pow2_nat: "pow2 (int k) = 2 ^ k" "pow2 (- int k) = 1 / 2 ^ k"
  by (simp_all add: pow2_def)



lemma roundHalfEven_int: "roundHalfEven (of_int z) = z"
  by (simp add: roundHalfEven_def)

lemma roundHalfEven_nonneg: "0 \<le> m \<Longrightarrow> 0 \<le> roundHalfEven m"
  unfolding roundHalfEven_def Let_def by (simp; linarith)

lemma nearestDouble_nonneg: "0 \<le> y \<Longrightarrow> 0 \<le> nearestDouble y"
  by (simp add: nearestDouble_def Let_def roundHalfEven_nonneg pow2_pos less_imp_le)


lemma nearestDouble_nat:
  assumes "n < 2 ^ 53"
  shows "nearestDouble (real n) = real n"
proof (cases "n = 0")
  case True
  then show ?thesis by (simp add: nearestDouble_def)
next
  case False
  have "2 ^ (bitLength n - 1) \<le> n" using False by (rule bitLength_bounds(1))
  then have "(2::nat) ^ (bitLength n - 1) < 2 ^ 53" using assms by simp
  then have b: "bitLength n - 1 < 53" by (rule power_less_imp_less_exp[rotated]) simp
  have b0: "bitLength n \<noteq> 0" using False by (simp add: bitLength.simps[of n])
  define j where "j = 53 - bitLength n"
  have one: "1 \<le> real n" using False by simp
  have "binade (real n) = int (bitLength n) - 1" using one by (simp add: binade_def)
  then have e: "max (- 1022) (binade (real n)) - 52 = - int j"
    using b b0 by (simp add: j_def)
  have nd: "nearestDouble (real n) = of_int (roundHalfEven (real n * 2 ^ j)) / 2 ^ j"
    using False by (simp add: nearestDouble_def Let_def e pow2_nat)
  have "real n * 2 ^ j = of_int (int (n * 2 ^ j))" by simp
  then have "roundHalfEven (real n * 2 ^ j) = int (n * 2 ^ j)"
    by (simp only: roundHalfEven_int)
  then show ?thesis by (simp add: nd)
qed

text \<open>Rounding is odd, and it leaves every integer below \<open>2 ^ 53\<close> in magnitude unchanged.\<close>

lemma roundHalfEven_minus: "roundHalfEven (- m) = - roundHalfEven m"
proof (cases "of_int \<lfloor>m\<rfloor> = m")
  case True
  then obtain z where "m = of_int z" by metis
  then show ?thesis using roundHalfEven_int[of "- z"] by (simp add: roundHalfEven_int)
next
  case False
  then have f: "\<lfloor>- m\<rfloor> = - \<lfloor>m\<rfloor> - 1"
    by (metis ceiling_altdef ceiling_def add_diff_cancel_right' minus_diff_eq minus_minus diff_minus_eq_add uminus_add_conv_diff)
  show ?thesis
    unfolding roundHalfEven_def Let_def f by (simp; linarith?)
qed

lemma nearestDouble_minus: "nearestDouble (- y) = - nearestDouble y"
  by (simp add: nearestDouble_def Let_def roundHalfEven_minus)

lemma nearestDouble_int:
  assumes "\<bar>k\<bar> < 2 ^ 53"
  shows "nearestDouble (of_int k) = of_int k"
proof (cases "0 \<le> k")
  case True
  then have "nat k < 2 ^ 53" using assms by simp
  then show ?thesis using nearestDouble_nat[of "nat k"] True by simp
next
  case False
  then have "nat (- k) < 2 ^ 53" using assms by simp
  then have "nearestDouble (- of_int k) = - of_int k"
    using nearestDouble_nat[of "nat (- k)"] False by simp
  then show ?thesis by (simp add: nearestDouble_minus)
qed

text \<open>Evaluation of the rounding at numerals.\<close>

lemma bitLength_numeral:
  "bitLength 0 = 0" "bitLength (Suc 0) = Suc 0"
  "bitLength (numeral w) = Suc (bitLength (numeral w div 2))"
  by (simp_all add: bitLength.simps[of 0] bitLength.simps[of "Suc 0"] bitLength.simps[of "numeral w"])

lemmas double_eval = nearestDouble_def binade_def roundHalfEven_def pow2_def Let_def
  num_mul_def num_add_def num_div_def bitLength_numeral

section \<open>Hue normalisation\<close>

text \<open>
  The inner remainder lies strictly between -360 and 360, so the rounded sum is not
  negative and the outer remainder lies from 0 up to, but not including, 360. Of an
  integer the inner remainder is an integer, the sum is a positive integer below 720,
  which is not rounded, and the outer remainder is the residue modulo 360.
\<close>

lemma js_rem_nonneg:
  assumes "0 \<le> a" "0 < m"
  shows "js_rem a m = a - m * of_int \<lfloor>a / m\<rfloor>"
  using assms by (simp add: js_rem_def js_trunc_def)

lemma floor_mod_bounds:
  fixes x :: real
  shows "0 \<le> x - 360 * of_int \<lfloor>x / 360\<rfloor>" "x - 360 * of_int \<lfloor>x / 360\<rfloor> < 360"
proof -
  have "of_int \<lfloor>x / 360\<rfloor> \<le> x / 360" by (rule of_int_floor_le)
  then show "0 \<le> x - 360 * of_int \<lfloor>x / 360\<rfloor>" by simp
  have "x / 360 < of_int \<lfloor>x / 360\<rfloor> + 1" by linarith
  then show "x - 360 * of_int \<lfloor>x / 360\<rfloor> < 360" by (simp add: field_simps)
qed

lemma js_rem_360_range: "- 360 < js_rem x 360" "js_rem x 360 < 360"
proof -
  have "- 360 < js_rem x 360 \<and> js_rem x 360 < 360"
  proof (cases "0 \<le> x")
    case True
    then show ?thesis using floor_mod_bounds[of x] by (simp add: js_rem_nonneg)
  next
    case False
    define c :: real where "c = of_int \<lceil>x / 360\<rceil>"
    have "x / 360 \<le> c" unfolding c_def by (rule le_of_int_ceiling)
    then have a: "x \<le> 360 * c" by simp
    have "c < x / 360 + 1" unfolding c_def by linarith
    then have b: "360 * c < x + 360" by (simp add: field_simps)
    have "js_rem x 360 = x - 360 * c" using False by (simp add: js_rem_def js_trunc_def c_def)
    then show ?thesis using a b by simp
  qed
  then show "- 360 < js_rem x 360" "js_rem x 360 < 360" by simp_all
qed

lemma normalizeHue_bounds: "0 \<le> normalizeHue x" "normalizeHue x < 360"
proof -
  define s where "s = num_add (js_rem x 360) 360"
  have "0 \<le> js_rem x 360 + 360" using js_rem_360_range(1)[of x] by simp
  then have s: "0 \<le> s" unfolding s_def num_add_def by (rule nearestDouble_nonneg)
  have "normalizeHue x = s - 360 * of_int \<lfloor>s / 360\<rfloor>"
    using s by (simp add: normalizeHue_def s_def[symmetric] js_rem_nonneg)
  then show "0 \<le> normalizeHue x" "normalizeHue x < 360"
    using floor_mod_bounds[of s] by simp_all
qed

lemma js_rem_int: "js_rem (of_int k) 360 = of_int (k - 360 * js_trunc (of_int k / 360))"
  by (simp add: js_rem_def)

lemma normalizeHue_int: "normalizeHue (of_int k) = of_int (k mod 360)"
proof -
  define j where "j = k - 360 * js_trunc (of_int k / 360)"
  have r: "js_rem (of_int k) 360 = of_int j" by (simp add: js_rem_int j_def)
  have "- 360 < (of_int j :: real)" "(of_int j :: real) < 360"
    using js_rem_360_range[of "of_int k"] by (simp_all only: r)
  then have j: "- 360 < j" "j < 360" by simp_all
  define n where "n = nat (j + 360)"
  have n: "int n = j + 360" "n < 2 ^ 53" using j by (simp_all add: n_def)
  have "of_int j + 360 = real n" using n(1) by (metis of_int_add of_int_numeral of_int_of_nat_eq)
  then have "num_add (js_rem (of_int k) 360) 360 = real n"
    using nearestDouble_nat[OF n(2)] by (simp add: num_add_def r)
  then have "normalizeHue (of_int k) = js_rem (real n) 360" by (simp add: normalizeHue_def)
  also have "\<dots> = real n - 360 * of_int \<lfloor>real n / 360\<rfloor>" by (simp add: js_rem_nonneg)
  also have "\<lfloor>real n / 360\<rfloor> = int n div 360"
    using floor_divide_of_int_eq[of "int n" 360, where ?'a = real] by simp
  also have "real n - 360 * of_int (int n div 360) = of_int (int n mod 360)"
    by (simp add: minus_div_mult_eq_mod[symmetric] algebra_simps)
  also have "int n mod 360 = k mod 360"
  proof -
    have "int n = k + 360 * (1 - js_trunc (of_int k / 360))" by (simp add: n(1) j_def)
    then show ?thesis by (simp only: mod_mult_self2)
  qed
  finally show ?thesis .
qed

text \<open>
  The double just below zero with the spacing of the doubles around 360: adding 360
  once is exact, adding it twice is a tie that rounds to 720.
\<close>

lemma normalizeHue_tiny:
  "nearestDouble (- (1 / 2 ^ 44)) = - (1 / 2 ^ 44)"
  "num_add (- (1 / 2 ^ 44)) 360 = 360 - 1 / 2 ^ 44"
  "normalizeHue (- (1 / 2 ^ 44)) = 360 - 1 / 2 ^ 44"
  "normalizeHue (360 - 1 / 2 ^ 44) = 0"
proof -
  show "nearestDouble (- (1 / 2 ^ 44)) = - (1 / 2 ^ 44)"
    by (simp add: double_eval)
  show a: "num_add (- (1 / 2 ^ 44)) 360 = 360 - 1 / 2 ^ 44"
    by (simp add: double_eval)
  have b: "num_add (360 - 1 / 2 ^ 44) 360 = 720"
    by (simp add: double_eval)
  have r: "js_rem (- (1 / 2 ^ 44)) 360 = - (1 / 2 ^ 44)"
    "js_rem (360 - 1 / 2 ^ 44) 360 = 360 - 1 / 2 ^ 44" "js_rem 720 360 = 0"
    by (simp_all add: js_rem_def js_trunc_def ceiling_eq_iff)
  show "normalizeHue (- (1 / 2 ^ 44)) = 360 - 1 / 2 ^ 44"
    by (simp only: normalizeHue_def r a)
  show "normalizeHue (360 - 1 / 2 ^ 44) = 0"
    by (simp only: normalizeHue_def r b)
qed

text \<open>
  Claim C7, as stated: for every real number \<open>x\<close>, \<^verbatim>\<open>normalizeHue(x)\<close> lies in the
  half-open interval from 0 to 360 and equals \<^verbatim>\<open>normalizeHue(x + 360)\<close>. The
  equality fails on doubles: \<open>x = - 2 ^ (- 44)\<close> is a double, \<open>x + 360\<close> is the
  double just below 360 and is computed without rounding, and \<^verbatim>\<open>normalizeHue\<close> maps
  \<open>x\<close> to that double, but \<open>x + 360\<close> to 0, because the sum
  \<open>(x + 360) + 360\<close> inside it rounds up to 720.
\<close>

theorem normalizeHue_period_counterexample:
  "nearestDouble (- (1 / 2 ^ 44)) = - (1 / 2 ^ 44) \<and>
   num_add (- (1 / 2 ^ 44)) 360 = 360 - 1 / 2 ^ 44 \<and>
   normalizeHue (- (1 / 2 ^ 44)) = 360 - 1 / 2 ^ 44 \<and>
   normalizeHue (num_add (- (1 / 2 ^ 44)) 360) = 0 \<and>
   normalizeHue (num_add (- (1 / 2 ^ 44)) 360) \<noteq> normalizeHue (- (1 / 2 ^ 44))"
proof -
  have "(0 :: real) \<noteq> 360 - 1 / 2 ^ 44" by simp
  then show ?thesis by (simp only: normalizeHue_tiny) simp
qed

text \<open>
  Claim C7, amended: for every number \<open>x\<close>, \<^verbatim>\<open>normalizeHue(x)\<close> lies in the
  half-open interval from 0 to 360; and for every integer \<open>k\<close> of magnitude below
  \<open>2 ^ 53 - 360\<close>, negative ones included, \<^verbatim>\<open>normalizeHue(k)\<close> is the residue of
  \<open>k\<close> modulo 360 (the one from 0 to 359), the sum \<open>k + 360\<close> is computed without
  rounding, and \<^verbatim>\<open>normalizeHue(k + 360)\<close> equals \<^verbatim>\<open>normalizeHue(k)\<close>.
\<close>

theorem normalizeHue_range_and_integers:
  assumes "\<bar>k\<bar> < 2 ^ 53 - 360"
  shows "0 \<le> normalizeHue x \<and> normalizeHue x < 360 \<and>
     normalizeHue (of_int k) = of_int (k mod 360) \<and>
     num_add (of_int k) 360 = of_int (k + 360) \<and>
     normalizeHue (num_add (of_int k) 360) = normalizeHue (of_int k)"
proof -
  have "\<bar>k + 360\<bar> < 2 ^ 53" using assms by (simp add: abs_le_iff abs_less_iff)
  then have "nearestDouble (of_int (k + 360)) = of_int (k + 360)" by (rule nearestDouble_int)
  then have s: "num_add (of_int k) 360 = of_int (k + 360)" by (simp add: num_add_def)
  have "normalizeHue (of_int (k + 360)) = of_int ((k + 360) mod 360)" by (rule normalizeHue_int)
  then have "normalizeHue (num_add (of_int k) 360) = normalizeHue (of_int k)"
    by (simp add: s normalizeHue_int)
  then show ?thesis using normalizeHue_bounds[of x] s by (simp add: normalizeHue_int)
qed

theorem normalizeHue_range_and_integers_witness:
  "\<bar>- 30 :: int\<bar> < 2 ^ 53 - 360 \<and> normalizeHue (- 30) = 330 \<and>
   normalizeHue (num_add (- 30) 360) = 330 \<and>
   0 \<le> normalizeHue (- (1 / 2 ^ 44)) \<and> normalizeHue (- (1 / 2 ^ 44)) < 360"
proof -
  have a: "\<bar>- 30 :: int\<bar> < 2 ^ 53 - 360" by simp
  note t = normalizeHue_range_and_integers[OF a, of "- (1 / 2 ^ 44)"]
  from t have b: "normalizeHue (- 30) = 330" by simp
  from t have "normalizeHue (num_add (of_int (- 30)) 360) = normalizeHue (of_int (- 30))" by blast
  then have c: "normalizeHue (num_add (- 30) 360) = 330" using b by simp
  from t have d: "0 \<le> normalizeHue (- (1 / 2 ^ 44))" "normalizeHue (- (1 / 2 ^ 44)) < 360"
    by blast+
  show ?thesis using a b c d by blast
qed

section \<open>Parsing a hex colour\<close>

lemma and_255_mask: "(v :: 32 word) AND 255 = take_bit 8 v"
proof -
  have "(255 :: 32 word) = mask 8" by (simp add: mask_eq_exp_minus_1)
  then show ?thesis by (simp add: take_bit_eq_mask)
qed

lemma sint_and_255: "sint ((v :: 32 word) AND 255) = sint v mod 256"
proof -
  have "sint (take_bit 8 v) = signed_take_bit 31 (take_bit 8 (uint v))"
    by (simp add: sint_uint unsigned_take_bit_eq)
  also have "\<dots> = take_bit 8 (uint v)"
    by (simp add: signed_take_bit_take_bit)
  also have "\<dots> = take_bit 8 (signed_take_bit 31 (uint v))"
    by (simp add: take_bit_signed_take_bit)
  also have "\<dots> = sint v mod 2 ^ 8"
    by (simp add: sint_uint take_bit_eq_mod)
  finally show ?thesis by (simp add: and_255_mask)
qed

lemma channel_and_255: "channel (v AND 255) = of_int (sint v mod 256)"
  by (simp add: channel_def sint_and_255)

lemma sint_word_of_int_small:
  assumes "0 \<le> n" "n < 2 ^ 31"
  shows "sint (word_of_int n :: 32 word) = n"
proof -
  have "sint (word_of_int n :: 32 word) = signed_take_bit 31 n"
    by (simp add: sint_sbintrunc')
  also have "\<dots> = n" using assms
    by (simp add: signed_take_bit_int_eq_self_iff)
  finally show ?thesis .
qed

text \<open>The three channels are the three low bytes of the 32-bit integer read from the string.\<close>

lemma hexToRgb_channels_of:
  "hexToRgb hex =
     (let n = sint (ToInt32 (parseInt (stripHash hex) 16))
      in \<lparr>rgb_r = of_int ((n div 65536) mod 256),
          rgb_g = of_int ((n div 256) mod 256),
          rgb_b = of_int (n mod 256)\<rparr>)"
  by (simp add: hexToRgb_def Let_def channel_and_255 sint_signed_drop_bit_eq drop_bit_eq_div)

lemma hexDigit_digitVal:
  assumes "isHexDigit c"
  shows "digitVal c = Some (hexDigitValue c)" "hexDigitValue c < 16"
  using assms by (auto simp: isHexDigit_def digitVal_def hexDigitValue_def)

lemma hexDigit_plain:
  assumes "isHexDigit c"
  shows "\<not> isWhiteSpace c" "c \<noteq> CHR ''-''" "c \<noteq> CHR ''+''" "c \<noteq> CHR ''x''" "c \<noteq> CHR ''X''"
    "c \<noteq> CHR ''#''"
  using assms by (auto simp: isHexDigit_def isWhiteSpace_def)

lemma hexDigit_digitChar:
  assumes "isHexDigit c"
  shows "digitChar (hexDigitValue c) = lowerChar c"
  using assms
  by (auto simp: isHexDigit_def digitChar_def hexDigitValue_def lowerChar_def char_of_eq_iff)

lemma hexDigit_isRadixDigit: "isHexDigit c \<Longrightarrow> isRadixDigit 16 c"
  by (simp add: isRadixDigit_def hexDigit_digitVal)

lemma hexDigits6_elims:
  assumes "hexDigits6 ds"
  obtains a b c d e f where "ds = [a, b, c, d, e, f]"
    "isHexDigit a" "isHexDigit b" "isHexDigit c" "isHexDigit d" "isHexDigit e" "isHexDigit f"
proof -
  from assms have len: "length ds = 6" and all: "list_all isHexDigit ds"
    by (simp_all add: hexDigits6_def)
  from len obtain a b c d e f where ds: "ds = [a, b, c, d, e, f]"
    by (auto simp: length_Suc_conv numeral_eq_Suc)
  with all that show thesis by simp
qed

lemma parseInt_hexDigits6:
  assumes "ds = [a, b, c, d, e, f]"
    "isHexDigit a" "isHexDigit b" "isHexDigit c" "isHexDigit d" "isHexDigit e" "isHexDigit f"
  shows "parseInt ds 16 =
     Fin (int (((((hexDigitValue a * 16 + hexDigitValue b) * 16 + hexDigitValue c) * 16
            + hexDigitValue d) * 16 + hexDigitValue e) * 16 + hexDigitValue f))"
proof -
  define v where "v = ((((hexDigitValue a * 16 + hexDigitValue b) * 16 + hexDigitValue c) * 16
            + hexDigitValue d) * 16 + hexDigitValue e) * 16 + hexDigitValue f"
  have drop: "dropWhile isWhiteSpace ds = ds"
    using assms by (simp add: hexDigit_plain)
  have sign: "stripSign ds = (False, ds)"
    using assms by (simp add: stripSign_def hexDigit_plain)
  have pre: "stripPrefix0x ds = ds"
    using assms by (simp add: stripPrefix0x_def hexDigit_plain)
  have tw: "takeWhile (isRadixDigit 16) ds = ds"
    using assms by (simp add: hexDigit_isRadixDigit)
  have dv: "digitsValue 16 ds = v"
    using assms by (simp add: digitsValue_def hexDigit_digitVal v_def)
  have "v < 2 ^ 24"
    using assms(2-7)[THEN hexDigit_digitVal(2)] by (simp add: v_def)
  then have rd: "roundToDouble v = Some v"
    by (simp add: roundToDouble_def)
  have ne: "ds \<noteq> []" using assms(1) by simp
  have "parseInt ds 16 = Fin (int v)"
    by (simp add: parseInt_def drop sign pre tw dv toNumber_def rd ne)
  then show ?thesis by (simp only: v_def)
qed

lemma bytes_split:
  fixes A B C :: int
  assumes "0 \<le> A" "A < 256" "0 \<le> B" "B < 256" "0 \<le> C" "C < 256"
  shows "(A * 65536 + (B * 256 + C)) div 65536 mod 256 = A"
    "(A * 65536 + (B * 256 + C)) div 256 mod 256 = B"
    "(A * 65536 + (B * 256 + C)) mod 256 = C"
proof -
  have e: "A * 65536 + (B * 256 + C) = C + (A * 256 + B) * 256" by simp
  have "(A * 65536 + (B * 256 + C)) div 65536 = A"
    using assms by simp
  then show "(A * 65536 + (B * 256 + C)) div 65536 mod 256 = A"
    using assms by simp
  have "(A * 65536 + (B * 256 + C)) div 256 = B + A * 256"
    unfolding e using assms by simp
  then show "(A * 65536 + (B * 256 + C)) div 256 mod 256 = B"
    using assms by simp
  have "(C + (A * 256 + B) * 256) mod 256 = C mod 256" by (rule mod_mult_self1)
  then show "(A * 65536 + (B * 256 + C)) mod 256 = C"
    unfolding e using assms by simp
qed

lemma hex_value_split:
  fixes va vb vc vd ve vf :: nat
  assumes "va < 16" "vb < 16" "vc < 16" "vd < 16" "ve < 16" "vf < 16"
  defines "v \<equiv> ((((va * 16 + vb) * 16 + vc) * 16 + vd) * 16 + ve) * 16 + vf"
  shows "int v div 65536 mod 256 = int (16 * va + vb)"
    "int v div 256 mod 256 = int (16 * vc + vd)"
    "int v mod 256 = int (16 * ve + vf)"
    "v < 2 ^ 24"
proof -
  have v: "int v = int (16 * va + vb) * 65536 + (int (16 * vc + vd) * 256 + int (16 * ve + vf))"
    by (simp add: v_def)
  have r: "int (16 * va + vb) < 256" "int (16 * vc + vd) < 256" "int (16 * ve + vf) < 256"
    using assms(1-6) by simp_all
  have p: "0 \<le> int (16 * va + vb)" "0 \<le> int (16 * vc + vd)" "0 \<le> int (16 * ve + vf)"
    by simp_all
  show "int v div 65536 mod 256 = int (16 * va + vb)"
    unfolding v by (rule bytes_split(1)[OF p(1) r(1) p(2) r(2) p(3) r(3)])
  show "int v div 256 mod 256 = int (16 * vc + vd)"
    unfolding v by (rule bytes_split(2)[OF p(1) r(1) p(2) r(2) p(3) r(3)])
  show "int v mod 256 = int (16 * ve + vf)"
    unfolding v by (rule bytes_split(3)[OF p(1) r(1) p(2) r(2) p(3) r(3)])
  show "v < 2 ^ 24" using assms(1-6) by (simp add: v_def)
qed

lemma hexToRgb_hexDigits6:
  assumes "hexDigits6 ds" "hex = ds \<or> hex = CHR ''#'' # ds"
  shows "hexToRgb hex =
     (case channelsOf ds of (R, G, B) \<Rightarrow> \<lparr>rgb_r = real R, rgb_g = real G, rgb_b = real B\<rparr>)"
proof -
  from assms(1) obtain a b c d e f where ds: "ds = [a, b, c, d, e, f]"
    and hd: "isHexDigit a" "isHexDigit b" "isHexDigit c" "isHexDigit d" "isHexDigit e" "isHexDigit f"
    by (rule hexDigits6_elims)
  define v where "v = ((((hexDigitValue a * 16 + hexDigitValue b) * 16 + hexDigitValue c) * 16
            + hexDigitValue d) * 16 + hexDigitValue e) * 16 + hexDigitValue f"
  have sh: "stripHash hex = ds"
    using assms(2) hd(1) by (auto simp: stripHash_def ds hexDigit_plain)
  have p: "parseInt ds 16 = Fin (int v)"
    unfolding v_def by (rule parseInt_hexDigits6[OF ds hd])
  note vs = hex_value_split[OF hd[THEN hexDigit_digitVal(2)], folded v_def]
  have "int v < 2 ^ 31" using vs(4) by simp
  then have s: "sint (word_of_nat v :: 32 word) = int v"
    using sint_word_of_int_small[of "int v"] by simp
  have "hexToRgb hex =
      \<lparr>rgb_r = of_int (int v div 65536 mod 256), rgb_g = of_int (int v div 256 mod 256),
       rgb_b = of_int (int v mod 256)\<rparr>"
    by (simp add: hexToRgb_channels_of sh p ToInt32_def s Let_def del: of_nat_add of_nat_mult)
  also have "\<dots> = \<lparr>rgb_r = real (16 * hexDigitValue a + hexDigitValue b),
       rgb_g = real (16 * hexDigitValue c + hexDigitValue d),
       rgb_b = real (16 * hexDigitValue e + hexDigitValue f)\<rparr>"
    by (simp only: vs(1-3) of_int_of_nat_eq)
  finally show ?thesis
    by (simp add: channelsOf_def ds del: of_nat_add of_nat_mult)
qed

lemma toHex_byte:
  assumes "va < 16" "vb < 16"
  shows "toHex (real (16 * va + vb)) = [digitChar va, digitChar vb]"
proof -
  have "16 * va + vb \<le> 255" using assms by simp
  then have m: "Math_round (max 0 (min 255 (real (16 * va + vb)))) = real (16 * va + vb)"
    by (simp add: Math_round_def min_def max_def del: of_nat_add of_nat_mult)
  have n: "natToString 16 (16 * va + vb) = (if va = 0 then [digitChar vb] else [digitChar va, digitChar vb])"
    using assms by (simp add: natToString.simps[of 16 "16 * va + vb"] natToString.simps[of 16 va])
  have z: "digitChar 0 = CHR ''0''" by (simp add: digitChar_def char_of_eq_iff)
  show ?thesis
    unfolding toHex_def m by (simp add: n z Let_def del: of_nat_add of_nat_mult)
qed








lemma hexDigits6_examples: "hexDigits6 ''000000''" "hexDigits6 ''ffffff''" "hexDigits6 ''3498db''"
  "hexDigits6 ''3498DB''" "hexDigits6 ''ff0001''" "hexDigits6 ''da3af8''" "hexDigits6 ''1a2b3c''"
  by (simp_all add: hexDigits6_def isHexDigit_def)

text \<open>
  Claim C6: for every six-digit hex colour, with or without the leading \<^verbatim>\<open>#\<close> and
  in any letter case, \<^verbatim>\<open>hexToRgb\<close> followed by \<^verbatim>\<open>rgbToHex\<close> gives the same
  colour in lowercase with a leading \<^verbatim>\<open>#\<close>.
\<close>

theorem rgbToHex_hexToRgb_roundtrip:
  assumes "hexDigits6 ds" and "hex = ds \<or> hex = CHR ''#'' # ds"
  shows "(let c = hexToRgb hex in rgbToHex (rgb_r c) (rgb_g c) (rgb_b c)) = CHR ''#'' # toLowerCase ds"
proof -
  from assms(1) obtain a b c d e f where ds: "ds = [a, b, c, d, e, f]"
    and hd: "isHexDigit a" "isHexDigit b" "isHexDigit c" "isHexDigit d" "isHexDigit e" "isHexDigit f"
    by (rule hexDigits6_elims)
  note lt = hd[THEN hexDigit_digitVal(2)]
  have "hexToRgb hex =
      \<lparr>rgb_r = real (16 * hexDigitValue a + hexDigitValue b),
       rgb_g = real (16 * hexDigitValue c + hexDigitValue d),
       rgb_b = real (16 * hexDigitValue e + hexDigitValue f)\<rparr>"
    using hexToRgb_hexDigits6[OF assms] by (simp add: channelsOf_def ds del: of_nat_add of_nat_mult)
  then have "(let c = hexToRgb hex in rgbToHex (rgb_r c) (rgb_g c) (rgb_b c)) =
      CHR ''#'' # [digitChar (hexDigitValue a), digitChar (hexDigitValue b)]
        @ [digitChar (hexDigitValue c), digitChar (hexDigitValue d)]
        @ [digitChar (hexDigitValue e), digitChar (hexDigitValue f)]"
    by (simp add: rgbToHex_def toHex_byte lt del: of_nat_add of_nat_mult)
  then show ?thesis
    by (simp add: hd[THEN hexDigit_digitChar] toLowerCase_def ds)
qed

theorem rgbToHex_hexToRgb_roundtrip_witness:
  "hexDigits6 ''3498DB'' \<and>
   (let c = hexToRgb ''#3498DB'' in rgbToHex (rgb_r c) (rgb_g c) (rgb_b c)) = ''#3498db''"
  using rgbToHex_hexToRgb_roundtrip[of "''3498DB''" "''#3498DB''"]
  by (simp add: hexDigits6_examples toLowerCase_def lowerChar_def char_of_eq_iff)




text \<open>
  Claim C10: for every input string, well-formed or not, \<^verbatim>\<open>hexToRgb\<close> returns
  three channels that are integers from 0 to 255; a string with no hex digit at its
  start parses to \<^verbatim>\<open>NaN\<close>, which the shifts and masks turn into 0.
\<close>

theorem hexToRgb_channels_in_range:
  "\<exists>R G B :: nat. R \<le> 255 \<and> G \<le> 255 \<and> B \<le> 255 \<and>
     hexToRgb hex = \<lparr>rgb_r = real R, rgb_g = real G, rgb_b = real B\<rparr>"
proof -
  define n where "n = sint (ToInt32 (parseInt (stripHash hex) 16))"
  have h: "hexToRgb hex =
      \<lparr>rgb_r = of_int (n div 65536 mod 256), rgb_g = of_int (n div 256 mod 256),
       rgb_b = of_int (n mod 256)\<rparr>"
    by (simp add: hexToRgb_channels_of n_def Let_def)
  have r: "0 \<le> k mod 256" "k mod 256 < 256" for k :: int by simp_all
  show ?thesis
  proof (intro exI conjI)
    show "hexToRgb hex = \<lparr>rgb_r = real (nat (n div 65536 mod 256)),
        rgb_g = real (nat (n div 256 mod 256)), rgb_b = real (nat (n mod 256))\<rparr>"
      by (simp add: h)
  qed (use r in simp_all)
qed

lemma hexToRgb_malformed:
  "parseInt ''zzzzzz'' 16 = NaN"
  "hexToRgb ''#zzzzzz'' = \<lparr>rgb_r = 0, rgb_g = 0, rgb_b = 0\<rparr>"
  by (simp_all add: hexToRgb_def stripHash_def parseInt_def stripSign_def stripPrefix0x_def
      isRadixDigit_def digitVal_def isWhiteSpace_def ToInt32_def channel_def)

section \<open>The loops of the strategies\<close>

text \<open>
  Three facts about every loop: the length of its result, that it only appends to the
  list it is given, and that a property of hues that holds of the given colours and
  of the hues the loop can add holds of every colour of the result.
\<close>

lemma complementaryLoop_length:
  "length (complementaryLoop baseHsl complement count colors) = max count (length colors)"
proof (induction baseHsl complement count colors rule: complementaryLoop.induct)
  case (1 baseHsl complement count colors)
  show ?case
  proof (cases "length colors < count")
    case True
    with "1.IH" show ?thesis
      by (subst complementaryLoop.simps) (simp add: Let_def)
  next
    case False
    then show ?thesis by (subst complementaryLoop.simps) simp
  qed
qed


lemma complementaryLoop_extends:
  "\<exists>ys. complementaryLoop baseHsl complement count colors = colors @ ys"
proof (induction baseHsl complement count colors rule: complementaryLoop.induct)
  case (1 baseHsl complement count colors)
  show ?case
  proof (cases "length colors < count")
    case True
    with "1.IH"[OF True refl] show ?thesis
      by (subst complementaryLoop.simps) (auto simp: Let_def)
  next
    case False
    then show ?thesis by (subst complementaryLoop.simps) simp
  qed
qed

lemma triadicLoop_length:
  "length (triadicLoop count colors) = max count (length colors)"
proof (induction count colors rule: triadicLoop.induct)
  case (1 count colors)
  show ?case
  proof (cases "length colors < count")
    case True
    with "1.IH"[OF True refl refl] show ?thesis
      by (subst triadicLoop.simps) (simp add: Let_def)
  next
    case False
    then show ?thesis by (subst triadicLoop.simps) simp
  qed
qed

lemma triadicLoop_extends:
  "\<exists>ys. triadicLoop count colors = colors @ ys"
proof (induction count colors rule: triadicLoop.induct)
  case (1 count colors)
  show ?case
  proof (cases "length colors < count")
    case True
    with "1.IH"[OF True refl refl] show ?thesis
      by (subst triadicLoop.simps) (auto simp: Let_def)
  next
    case False
    then show ?thesis by (subst triadicLoop.simps) simp
  qed
qed


lemma splitComplementaryLoop_length:
  "length (splitComplementaryLoop count colors) = max count (length colors)"
proof (induction count colors rule: splitComplementaryLoop.induct)
  case (1 count colors)
  show ?case
  proof (cases "length colors < count")
    case True
    with "1.IH"[OF True refl refl] show ?thesis
      by (subst splitComplementaryLoop.simps) (simp add: Let_def)
  next
    case False
    then show ?thesis by (subst splitComplementaryLoop.simps) simp
  qed
qed

lemma splitComplementaryLoop_extends:
  "\<exists>ys. splitComplementaryLoop count colors = colors @ ys"
proof (induction count colors rule: splitComplementaryLoop.induct)
  case (1 count colors)
  show ?case
  proof (cases "length colors < count")
    case True
    with "1.IH"[OF True refl refl] show ?thesis
      by (subst splitComplementaryLoop.simps) (auto simp: Let_def)
  next
    case False
    then show ?thesis by (subst splitComplementaryLoop.simps) simp
  qed
qed


lemma tetradicLoop_length:
  "length (tetradicLoop count colors) = max count (length colors)"
proof (induction count colors rule: tetradicLoop.induct)
  case (1 count colors)
  show ?case
  proof (cases "length colors < count")
    case True
    with "1.IH"[OF True refl refl] show ?thesis
      by (subst tetradicLoop.simps) (simp add: Let_def)
  next
    case False
    then show ?thesis by (subst tetradicLoop.simps) simp
  qed
qed

lemma tetradicLoop_extends:
  "\<exists>ys. tetradicLoop count colors = colors @ ys"
proof (induction count colors rule: tetradicLoop.induct)
  case (1 count colors)
  show ?case
  proof (cases "length colors < count")
    case True
    with "1.IH"[OF True refl refl] show ?thesis
      by (subst tetradicLoop.simps) (auto simp: Let_def)
  next
    case False
    then show ?thesis by (subst tetradicLoop.simps) simp
  qed
qed


lemma squareLoop_length:
  "length (squareLoop count colors) = max count (length colors)"
proof (induction count colors rule: squareLoop.induct)
  case (1 count colors)
  show ?case
  proof (cases "length colors < count")
    case True
    with "1.IH"[OF True refl refl] show ?thesis
      by (subst squareLoop.simps) (simp add: Let_def)
  next
    case False
    then show ?thesis by (subst squareLoop.simps) simp
  qed
qed

lemma squareLoop_extends:
  "\<exists>ys. squareLoop count colors = colors @ ys"
proof (induction count colors rule: squareLoop.induct)
  case (1 count colors)
  show ?case
  proof (cases "length colors < count")
    case True
    with "1.IH"[OF True refl refl] show ?thesis
      by (subst squareLoop.simps) (auto simp: Let_def)
  next
    case False
    then show ?thesis by (subst squareLoop.simps) simp
  qed
qed


lemma doubleComplementaryLoop_length:
  "length (doubleComplementaryLoop count colors) = max count (length colors)"
proof (induction count colors rule: doubleComplementaryLoop.induct)
  case (1 count colors)
  show ?case
  proof (cases "length colors < count")
    case True
    with "1.IH"[OF True refl refl] show ?thesis
      by (subst doubleComplementaryLoop.simps) (simp add: Let_def)
  next
    case False
    then show ?thesis by (subst doubleComplementaryLoop.simps) simp
  qed
qed

lemma doubleComplementaryLoop_extends:
  "\<exists>ys. doubleComplementaryLoop count colors = colors @ ys"
proof (induction count colors rule: doubleComplementaryLoop.induct)
  case (1 count colors)
  show ?case
  proof (cases "length colors < count")
    case True
    with "1.IH"[OF True refl refl] show ?thesis
      by (subst doubleComplementaryLoop.simps) (auto simp: Let_def)
  next
    case False
    then show ?thesis by (subst doubleComplementaryLoop.simps) simp
  qed
qed


lemma analogousLoop_length:
  "length (analogousLoop baseHsl count i colors) = length colors + (count - i)"
proof (induction baseHsl count i colors rule: analogousLoop.induct)
  case (1 baseHsl count i colors)
  show ?case
  proof (cases "i < count")
    case True
    with "1.IH"[OF True refl refl refl] show ?thesis
      by (subst analogousLoop.simps) (simp add: Let_def)
  next
    case False
    then show ?thesis by (subst analogousLoop.simps) simp
  qed
qed

lemma analogousLoop_extends:
  "\<exists>ys. analogousLoop baseHsl count i colors = colors @ ys"
proof (induction baseHsl count i colors rule: analogousLoop.induct)
  case (1 baseHsl count i colors)
  show ?case
  proof (cases "i < count")
    case True
    with "1.IH"[OF True refl refl refl] show ?thesis
      by (subst analogousLoop.simps) (auto simp: Let_def)
  next
    case False
    then show ?thesis by (subst analogousLoop.simps) simp
  qed
qed


lemma monochromaticLoop_length:
  "length (monochromaticLoop baseHsl count i colors) = length colors + (count - i)"
proof (induction baseHsl count i colors rule: monochromaticLoop.induct)
  case (1 baseHsl count i colors)
  show ?case
  proof (cases "i < count")
    case True
    with "1.IH"[OF True refl refl] show ?thesis
      by (subst monochromaticLoop.simps) (simp add: Let_def)
  next
    case False
    then show ?thesis by (subst monochromaticLoop.simps) simp
  qed
qed

lemma monochromaticLoop_extends:
  "\<exists>ys. monochromaticLoop baseHsl count i colors = colors @ ys"
proof (induction baseHsl count i colors rule: monochromaticLoop.induct)
  case (1 baseHsl count i colors)
  show ?case
  proof (cases "i < count")
    case True
    with "1.IH"[OF True refl refl] show ?thesis
      by (subst monochromaticLoop.simps) (auto simp: Let_def)
  next
    case False
    then show ?thesis by (subst monochromaticLoop.simps) simp
  qed
qed


lemma customLoop_length:
  "length (customLoop baseHsl count angle i colors) = length colors + (count - i)"
proof (induction baseHsl count angle i colors rule: customLoop.induct)
  case (1 baseHsl count angle i colors)
  show ?case
  proof (cases "i < count")
    case True
    with "1.IH"[OF True] show ?thesis
      by (subst customLoop.simps) (simp add: Let_def)
  next
    case False
    then show ?thesis by (subst customLoop.simps) simp
  qed
qed

lemma customLoop_extends:
  "\<exists>ys. customLoop baseHsl count angle i colors = colors @ ys"
proof (induction baseHsl count angle i colors rule: customLoop.induct)
  case (1 baseHsl count angle i colors)
  show ?case
  proof (cases "i < count")
    case True
    with "1.IH"[OF True] show ?thesis
      by (subst customLoop.simps) (auto simp: Let_def)
  next
    case False
    then show ?thesis by (subst customLoop.simps) simp
  qed
qed


section \<open>Hue of a converted colour\<close>

lemma rgbToHsl_unrounded:
  "rgbToHsl r g b =
     \<lparr>hsl_h = Math_round (hueOf (r / 255) (g / 255) (b / 255) * 360),
      hsl_s = Math_round (satOf (r / 255) (g / 255) (b / 255) * 100),
      hsl_l = Math_round (ligOf (r / 255) (g / 255) (b / 255) * 100)\<rparr>"
  by (simp add: rgbToHsl_def hueOf_def satOf_def ligOf_def Let_def)

lemma hueOf_range: "0 \<le> hueOf R G B" "hueOf R G B < 1"
proof -
  define mx where "mx = max R (max G B)"
  define mn where "mn = min R (min G B)"
  define d where "d = mx - mn"
  have b: "mn \<le> R" "mn \<le> G" "mn \<le> B" "R \<le> mx" "G \<le> mx" "B \<le> mx"
    by (simp_all add: mx_def mn_def)
  have h: "hueOf R G B =
      (if mx = mn then 0
       else if mx = R then ((G - B) / d + (if G < B then 6 else 0)) / 6
       else if mx = G then ((B - R) / d + 2) / 6
       else ((R - G) / d + 4) / 6)"
    by (simp add: hueOf_def mx_def mn_def d_def Let_def)
  have q: "- 1 \<le> (x - y) / d \<and> (x - y) / d \<le> 1"
    if "mx \<noteq> mn" "mn \<le> x" "x \<le> mx" "mn \<le> y" "y \<le> mx" for x y
  proof -
    have "0 < d" using that b by (simp add: d_def)
    moreover have "- d \<le> x - y" "x - y \<le> d" using that by (simp_all add: d_def)
    ultimately show ?thesis by (simp add: field_simps)
  qed
  have q0: "(x - y) / d < 0" if "mx \<noteq> mn" "x < y" "mn \<le> x" "y \<le> mx" for x y
  proof -
    have "0 < d" using that by (simp add: d_def)
    then show ?thesis using that by (simp add: field_simps)
  qed
  have q1: "0 \<le> (x - y) / d" if "mx \<noteq> mn" "\<not> x < y" "mn \<le> y" "x \<le> mx" for x y
  proof -
    have "0 < d" using that by (simp add: d_def)
    then show ?thesis using that by (simp add: field_simps)
  qed
  show "0 \<le> hueOf R G B"
    unfolding h using q[of G B] q[of B R] q[of R G] q1[of G B] b
    by (auto split: if_splits)
  show "hueOf R G B < 1"
    unfolding h using q[of G B] q[of B R] q[of R G] q0[of G B] b
    by (auto split: if_splits)
qed

lemma Math_round_bounds:
  "x - 1 / 2 < Math_round x" "Math_round x \<le> x + 1 / 2"
  unfolding Math_round_def by linarith+

lemma Math_round_mono: "x \<le> y \<Longrightarrow> Math_round x \<le> Math_round y"
  by (simp add: Math_round_def floor_mono)

lemma Math_round_int [simp]: "Math_round (of_int k) = of_int k"
  unfolding Math_round_def by simp

lemma Math_round_numeral [simp]: "Math_round (numeral k) = numeral k" "Math_round 0 = 0"
  using Math_round_int[of "numeral k"] Math_round_int[of 0] by simp_all

lemma rgbToHsl_hue_range:
  "0 \<le> hsl_h (rgbToHsl r g b)" "hsl_h (rgbToHsl r g b) \<le> 360"
proof -
  let ?H = "hueOf (r / 255) (g / 255) (b / 255)"
  have "Math_round 0 \<le> Math_round (?H * 360)"
    by (rule Math_round_mono) (simp add: hueOf_range)
  then show "0 \<le> hsl_h (rgbToHsl r g b)" by (simp add: rgbToHsl_unrounded)
  have "Math_round (?H * 360) \<le> Math_round 360"
    by (rule Math_round_mono) (use hueOf_range(2)[of "r / 255" "g / 255" "b / 255"] in simp)
  then show "hsl_h (rgbToHsl r g b) \<le> 360" by (simp add: rgbToHsl_unrounded)
qed

section \<open>Random colours\<close>



lemma randomLoop_length:
  "length (fst (randomLoop count i colors g)) = length colors + (count - i)"
proof (induction count i colors g rule: randomLoop.induct)
  case (1 count i colors g)
  show ?case
  proof (cases "i < count")
    case True
    with "1.IH"[OF True refl prod.collapse] show ?thesis
      by (subst randomLoop.simps) (simp add: Let_def case_prod_unfold)
  next
    case False
    then show ?thesis by (subst randomLoop.simps) simp
  qed
qed

lemma randomLoop_extends:
  "\<exists>ys. fst (randomLoop count i colors g) = colors @ ys"
proof (induction count i colors g rule: randomLoop.induct)
  case (1 count i colors g)
  show ?case
  proof (cases "i < count")
    case True
    with "1.IH"[OF True refl prod.collapse] show ?thesis
      by (subst randomLoop.simps) (auto simp: Let_def case_prod_unfold)
  next
    case False
    then show ?thesis by (subst randomLoop.simps) simp
  qed
qed


section \<open>Strategies and palettes\<close>

lemma clamp_count:
  "\<exists>k. Math_max (Fin 2) (Math_min (Fin 6) (orDefault x 5)) = Fin k \<and> 2 \<le> k \<and> k \<le> 6"
  by (cases x) (auto simp: orDefault_def)

lemma lengthOf_colorCountOf:
  "2 \<le> lengthOf (colorCountOf c)" "lengthOf (colorCountOf c) \<le> 6"
proof -
  obtain k where "colorCountOf c = Fin k" "2 \<le> k" "k \<le> 6"
    unfolding colorCountOf_def using clamp_count by blast
  then show "2 \<le> lengthOf (colorCountOf c)" "lengthOf (colorCountOf c) \<le> 6"
    by (simp_all add: lengthOf_def)
qed

lemma strategy_length:
  assumes "1 \<le> n"
  shows "length (fst (strategy name baseHsl n angle g)) = n"
  using assms
  by (simp add: strategy_def generateComplementary_def generateAnalogous_def generateTriadic_def
      generateSplitComplementary_def generateTetradic_def generateMonochromatic_def
      generateSquare_def generateDoubleComplementary_def generateCustom_def generateRandom_def
      complementaryLoop_length analogousLoop_length triadicLoop_length
      splitComplementaryLoop_length tetradicLoop_length monochromaticLoop_length
      squareLoop_length doubleComplementaryLoop_length customLoop_length randomLoop_length
      Let_def)

lemma take_extends:
  assumes "\<exists>ys. zs = (x # xs) @ ys" "1 \<le> n"
  shows "\<exists>ys. take n zs = x # ys"
  using assms by (cases n) auto

lemma strategy_first:
  assumes "1 \<le> n"
  shows "\<exists>ys. fst (strategy name baseHsl n angle g) = baseHsl # ys"
proof -
  have r: "\<exists>ys. fst (randomLoop n 1 [baseHsl] g) = baseHsl # ys"
    using randomLoop_extends[of n 1 "[baseHsl]" g] by simp
  show ?thesis
    using assms r
    by (simp add: strategy_def generateComplementary_def generateAnalogous_def generateTriadic_def
      generateSplitComplementary_def generateTetradic_def generateMonochromatic_def
      generateSquare_def generateDoubleComplementary_def generateCustom_def generateRandom_def
      take_extends[OF complementaryLoop_extends] take_extends[OF analogousLoop_extends]
      take_extends[OF triadicLoop_extends] take_extends[OF splitComplementaryLoop_extends]
      take_extends[OF tetradicLoop_extends] take_extends[OF monochromaticLoop_extends]
      take_extends[OF squareLoop_extends] take_extends[OF doubleComplementaryLoop_extends]
      take_extends[OF customLoop_extends] Let_def)
qed



lemma strategy_anchor:
  assumes "name \<in> set anchorHarmonies"
  shows "strategy name baseHsl n angle g = (fst (strategy name baseHsl n angle g'), g)"
  using assms by (auto simp: strategy_def anchorHarmonies_def HARMONY_TYPES_def)

lemma strategy_unknown:
  assumes "name \<notin> set HARMONY_TYPES"
  shows "strategy name baseHsl n angle g = strategy ''random'' baseHsl n angle g"
  using assms by (simp add: strategy_def HARMONY_TYPES_def)

lemma generatePalette_struct:
  obtains name n base g1 angle where
    "generatePalette opts g =
       (\<lparr>pal_harmony = name, pal_count = n,
         pal_baseColor = color_hex (hd (map toColor (enumerate 0 (fst (strategy name base n angle g1))))),
         pal_colors = map toColor (enumerate 0 (fst (strategy name base n angle g1)))\<rparr>,
        snd (strategy name base n angle g1))"
    "2 \<le> n" "n \<le> 6"
    "name = toLowerCase (case opt_harmony opts of None \<Rightarrow> ''random'' | Some s \<Rightarrow> s)"
    "(base, g1) = (case opt_baseColor opts of None \<Rightarrow> randomHsl g
        | Some bc \<Rightarrow> if bc = [] then randomHsl g else (hexToHsl bc, g))"
    "n = lengthOf (colorCountOf (case opt_count opts of None \<Rightarrow> CountNumber 5 | Some c \<Rightarrow> c))"
    "angle = (case opt_angle opts of None \<Rightarrow> 45 | Some a \<Rightarrow> a)"
proof -
  define bg where "bg = (case opt_baseColor opts of None \<Rightarrow> randomHsl g
        | Some bc \<Rightarrow> if bc = [] then randomHsl g else (hexToHsl bc, g))"
  show thesis
  proof (rule that[of "toLowerCase (case opt_harmony opts of None \<Rightarrow> ''random'' | Some s \<Rightarrow> s)"
        "lengthOf (colorCountOf (case opt_count opts of None \<Rightarrow> CountNumber 5 | Some c \<Rightarrow> c))"
        "fst bg" "case opt_angle opts of None \<Rightarrow> 45 | Some a \<Rightarrow> a" "snd bg"])
    show "(fst bg, snd bg) = (case opt_baseColor opts of None \<Rightarrow> randomHsl g
        | Some bc \<Rightarrow> if bc = [] then randomHsl g else (hexToHsl bc, g))"
      by (simp add: bg_def)
  qed (simp_all add: generatePalette_def Let_def case_prod_unfold bg_def lengthOf_colorCountOf)
qed

lemma generatePalette_length:
  "length (pal_colors (fst (generatePalette opts g))) = pal_count (fst (generatePalette opts g))"
  "2 \<le> pal_count (fst (generatePalette opts g))"
  "pal_count (fst (generatePalette opts g)) \<le> 6"
proof -
  obtain name n base g1 angle where
    p: "generatePalette opts g =
       (\<lparr>pal_harmony = name, pal_count = n,
         pal_baseColor = color_hex (hd (map toColor (enumerate 0 (fst (strategy name base n angle g1))))),
         pal_colors = map toColor (enumerate 0 (fst (strategy name base n angle g1)))\<rparr>,
        snd (strategy name base n angle g1))"
    and n: "2 \<le> n" "n \<le> 6"
    by (rule generatePalette_struct)
  show "length (pal_colors (fst (generatePalette opts g))) = pal_count (fst (generatePalette opts g))"
    using n by (simp add: p strategy_length)
  show "2 \<le> pal_count (fst (generatePalette opts g))" "pal_count (fst (generatePalette opts g)) \<le> 6"
    using n by (simp_all add: p)
qed

lemma generatePalette_first:
  assumes "opt_baseColor opts = Some bc" "bc \<noteq> []"
  shows "\<exists>cs. pal_colors (fst (generatePalette opts g)) =
      \<lparr>color_hex = hslToHex (hsl_h (hexToHsl bc)) (hsl_s (hexToHsl bc)) (hsl_l (hexToHsl bc)),
       color_hsl = hexToHsl bc, color_role = ''primary''\<rparr> # cs"
proof -
  obtain name n base g1 angle where
    p: "generatePalette opts g =
       (\<lparr>pal_harmony = name, pal_count = n,
         pal_baseColor = color_hex (hd (map toColor (enumerate 0 (fst (strategy name base n angle g1))))),
         pal_colors = map toColor (enumerate 0 (fst (strategy name base n angle g1)))\<rparr>,
        snd (strategy name base n angle g1))"
    and n: "2 \<le> n" "n \<le> 6"
    and b: "(base, g1) = (case opt_baseColor opts of None \<Rightarrow> randomHsl g
        | Some bc \<Rightarrow> if bc = [] then randomHsl g else (hexToHsl bc, g))"
    by (rule generatePalette_struct)
  have base: "base = hexToHsl bc" using b assms by simp
  obtain ys where "fst (strategy name base n angle g1) = base # ys"
    using strategy_first[of n name base angle g1] n by auto
  then show ?thesis
    by (simp add: p enumerate_eq_zip toColor_def roleOf_def base upt_conv_Cons del: upt_Suc)
qed

section \<open>Evaluation at concrete inputs\<close>

lemma hexToRgb_3498db: "hexToRgb ''#3498db'' = \<lparr>rgb_r = 52, rgb_g = 152, rgb_b = 219\<rparr>"
  using hexToRgb_hexDigits6[of "''3498db''" "''#3498db''"]
  by (simp add: hexDigits6_examples channelsOf_def hexDigitValue_def)

lemma hexToHsl_3498db: "hexToHsl ''#3498db'' = \<lparr>hsl_h = 204, hsl_s = 70, hsl_l = 53\<rparr>"
  by (simp add: hexToHsl_def hexToRgb_3498db rgbToHsl_def Math_round_def Let_def)

lemma digitChar_values:
  "digitChar 0 = CHR ''0''" "digitChar (Suc 0) = CHR ''1''" "digitChar 2 = CHR ''2''"
  "digitChar 3 = CHR ''3''" "digitChar 4 = CHR ''4''" "digitChar 5 = CHR ''5''"
  "digitChar 6 = CHR ''6''" "digitChar 7 = CHR ''7''" "digitChar 8 = CHR ''8''"
  "digitChar 9 = CHR ''9''" "digitChar 10 = CHR ''a''" "digitChar 11 = CHR ''b''"
  "digitChar 12 = CHR ''c''" "digitChar 13 = CHR ''d''" "digitChar 14 = CHR ''e''"
  "digitChar 15 = CHR ''f''"
  by (simp_all add: digitChar_def char_of_eq_iff)

lemma hslToRgb_chromatic:
  assumes "s0 \<noteq> 0"
    and "q = (if l0 / 100 < 1 / 2 then l0 / 100 * (1 + s0 / 100) else l0 / 100 + s0 / 100 - l0 / 100 * (s0 / 100))"
    and "p = 2 * (l0 / 100) - q"
    and "hue2rgb p q (h0 / 360 + 1 / 3) = r"
    and "hue2rgb p q (h0 / 360) = g"
    and "hue2rgb p q (h0 / 360 - 1 / 3) = b"
  shows "hslToRgb h0 s0 l0 =
     \<lparr>rgb_r = Math_round (r * 255), rgb_g = Math_round (g * 255), rgb_b = Math_round (b * 255)\<rparr>"
  using assms(1) unfolding hslToRgb_def Let_def assms(2)[symmetric] assms(3)[symmetric]
  by (simp add: assms(4-6))

lemma hslToRgb_204_70_53: "hslToRgb 204 70 53 = \<lparr>rgb_r = 51, rgb_g = 152, rgb_b = 219\<rparr>"
proof -
  have "hslToRgb 204 70 53 =
     \<lparr>rgb_r = Math_round (201 / 1000 * 255), rgb_g = Math_round (2979 / 5000 * 255),
      rgb_b = Math_round (859 / 1000 * 255)\<rparr>"
    by (rule hslToRgb_chromatic[where q = "859 / 1000" and p = "201 / 1000"])
      (simp_all add: hue2rgb_def)
  then show ?thesis by (simp add: Math_round_def)
qed

lemma toHex_values: "toHex 51 = ''33''" "toHex 152 = ''98''" "toHex 219 = ''db''"
  using toHex_byte[of 3 3] toHex_byte[of 9 8] toHex_byte[of 13 11]
  by (simp_all add: digitChar_values)

lemma hslToHex_204_70_53: "hslToHex 204 70 53 = ''#3398db''"
  by (simp add: hslToHex_def hslToRgb_204_70_53 rgbToHex_def toHex_values)



lemma toLowerCase_lower:
  "toLowerCase ''random'' = ''random''" "toLowerCase ''nonsense'' = ''nonsense''"
  "toLowerCase ''triadic'' = ''triadic''" "toLowerCase ''Complementary'' = ''complementary''"
  by (simp_all add: toLowerCase_def lowerChar_def char_of_eq_iff)

lemma parseInt_decimal_examples:
  "parseInt ''0'' 0 = Fin 0" "parseInt ''1'' 0 = Fin 1" "parseInt ''7'' 0 = Fin 7"
  "parseInt ''5'' 0 = Fin 5" "parseInt ''abc'' 0 = NaN"
  by (simp_all add: parseInt_def stripSign_def stripPrefix0x_def hasPrefix0x_def isRadixDigit_def
      digitVal_def digitsValue_def toNumber_def roundToDouble_def isWhiteSpace_def)

lemma colorCountOf_examples:
  "lengthOf (colorCountOf (CountNumber 0)) = 5"
  "lengthOf (colorCountOf (CountNumber 1)) = 2"
  "lengthOf (colorCountOf (CountNumber 7)) = 6"
  "lengthOf (colorCountOf (CountNumber 5)) = 5"
  "lengthOf (colorCountOf (CountString ''abc'')) = 5"
  by (simp_all add: colorCountOf_def countToString_def intToString_def natToString.simps
      digitChar_values parseInt_decimal_examples orDefault_def lengthOf_def)


section \<open>The harmony field and the fallback to the random strategy\<close>

lemma generatePalette_harmony:
  "pal_harmony (fst (generatePalette opts g)) =
     toLowerCase (case opt_harmony opts of None \<Rightarrow> ''random'' | Some s \<Rightarrow> s)"
  by (simp add: generatePalette_def Let_def case_prod_unfold)

text \<open>
  Claim C1, as stated: for a harmony string that is none of the ten identifiers, the
  palette's harmony field equals \<^verbatim>\<open>random\<close>. The field is the lowercased input
  instead: for \<^verbatim>\<open>nonsense\<close> it is \<^verbatim>\<open>nonsense\<close>.
\<close>

theorem unknown_harmony_field_counterexample:
  "pal_harmony (fst (generatePalette
      \<lparr>opt_harmony = Some ''nonsense'', opt_count = None, opt_baseColor = None, opt_angle = None\<rparr>
      (constRng 0))) \<noteq> ''random''"
  by (simp add: generatePalette_harmony toLowerCase_lower)

text \<open>
  Claim C1, amended: for every configuration whose lowercased harmony string is none of
  the ten identifiers, \<^verbatim>\<open>generatePalette\<close> uses the random strategy: it returns
  what it returns for the harmony \<^verbatim>\<open>random\<close> with the same count, base colour,
  angle and random numbers, except that the harmony field is the lowercased input string.
\<close>

theorem unknown_harmony_falls_back:
  assumes "opt_harmony opts = Some name" and "toLowerCase name \<notin> set HARMONY_TYPES"
  shows "generatePalette opts g =
     (let r = generatePalette (opts\<lparr>opt_harmony := Some ''random''\<rparr>) g
      in ((fst r)\<lparr>pal_harmony := toLowerCase name\<rparr>, snd r))"
  using assms
  by (simp add: generatePalette_def Let_def case_prod_unfold strategy_unknown toLowerCase_lower)

theorem unknown_harmony_falls_back_witness:
  "toLowerCase ''nonsense'' \<notin> set HARMONY_TYPES \<and>
   pal_harmony (fst (generatePalette
      \<lparr>opt_harmony = Some ''nonsense'', opt_count = None, opt_baseColor = None, opt_angle = None\<rparr>
      (constRng 0))) = ''nonsense''"
proof -
  have h: "toLowerCase ''nonsense'' \<notin> set HARMONY_TYPES"
    by (simp add: toLowerCase_lower HARMONY_TYPES_def)
  have "pal_harmony (fst (generatePalette
      \<lparr>opt_harmony = Some ''nonsense'', opt_count = None, opt_baseColor = None, opt_angle = None\<rparr>
      (constRng 0))) = toLowerCase ''nonsense''"
    by (subst unknown_harmony_falls_back[OF _ h]) (simp_all add: Let_def)
  with h show ?thesis by (simp add: toLowerCase_lower)
qed

section \<open>Determinism of the anchor strategies\<close>

text \<open>
  Claim C8: for each of the nine harmonies other than \<^verbatim>\<open>random\<close> and a given
  base colour, count and angle, the palette does not depend on the random numbers, and
  no random number is drawn: two calls with the same configuration return the same palette.
\<close>

theorem anchor_strategies_deterministic:
  assumes "opt_harmony opts = Some name"
    and "toLowerCase name \<in> set HARMONY_TYPES" and "toLowerCase name \<noteq> ''random''"
    and "opt_baseColor opts = Some bc" and "bc \<noteq> []"
  shows "fst (generatePalette opts g) = fst (generatePalette opts g') \<and>
     snd (generatePalette opts g) = g"
proof -
  have a: "toLowerCase name \<in> set anchorHarmonies"
    using assms(2,3) by (auto simp: anchorHarmonies_def HARMONY_TYPES_def)
  define n where "n = lengthOf (colorCountOf (case opt_count opts of None \<Rightarrow> CountNumber 5 | Some c \<Rightarrow> c))"
  define angle where "angle = (case opt_angle opts of None \<Rightarrow> 45 | Some a \<Rightarrow> a)"
  have s: "strategy (toLowerCase name) (hexToHsl bc) n angle g
      = (fst (strategy (toLowerCase name) (hexToHsl bc) n angle g'), g)"
    by (rule strategy_anchor[OF a])
  have s': "strategy (toLowerCase name) (hexToHsl bc) n angle g'
      = (fst (strategy (toLowerCase name) (hexToHsl bc) n angle g'), g')"
    by (rule strategy_anchor[OF a])
  show ?thesis
    using assms(1,4,5) s s'
    by (simp add: generatePalette_def Let_def case_prod_unfold n_def angle_def)
qed

theorem anchor_strategies_deterministic_witness:
  "toLowerCase ''triadic'' \<in> set HARMONY_TYPES \<and> toLowerCase ''triadic'' \<noteq> ''random'' \<and>
   fst (generatePalette
      \<lparr>opt_harmony = Some ''triadic'', opt_count = None, opt_baseColor = Some ''#3498db'',
       opt_angle = None\<rparr> (constRng 0)) =
   fst (generatePalette
      \<lparr>opt_harmony = Some ''triadic'', opt_count = None, opt_baseColor = Some ''#3498db'',
       opt_angle = None\<rparr> (constRng (1 / 2)))"
proof -
  have h: "toLowerCase ''triadic'' \<in> set HARMONY_TYPES" "toLowerCase ''triadic'' \<noteq> ''random''"
    by (simp_all add: toLowerCase_lower HARMONY_TYPES_def)
  have "fst (generatePalette
      \<lparr>opt_harmony = Some ''triadic'', opt_count = None, opt_baseColor = Some ''#3498db'',
       opt_angle = None\<rparr> (constRng 0)) =
   fst (generatePalette
      \<lparr>opt_harmony = Some ''triadic'', opt_count = None, opt_baseColor = Some ''#3498db'',
       opt_angle = None\<rparr> (constRng (1 / 2)))"
    using anchor_strategies_deterministic[of "\<lparr>opt_harmony = Some ''triadic'', opt_count = None,
        opt_baseColor = Some ''#3498db'', opt_angle = None\<rparr>" "''triadic''" "''#3498db''"
        "constRng 0" "constRng (1 / 2)"] h
    by simp
  with h show ?thesis by simp
qed

section \<open>The number of colours\<close>

lemma generatePalette_count:
  "pal_count (fst (generatePalette opts g)) =
     lengthOf (colorCountOf (case opt_count opts of None \<Rightarrow> CountNumber 5 | Some c \<Rightarrow> c))"
  by (simp add: generatePalette_def Let_def case_prod_unfold)

text \<open>
  A number that holds an integer prints as its decimal digits, with a minus sign when
  it is negative, and \<^verbatim>\<open>parseInt\<close> reads the integer back. So every integer count
  but 0 is clamped to the range from 2 to 6.
\<close>

lemma digitVal_digitChar: "d < 10 \<Longrightarrow> digitVal (digitChar d) = Some d"
  by (simp add: digitVal_def digitChar_def Let_def)

lemma digitChar_decimal_plain:
  assumes "d < 10"
  shows "\<not> isWhiteSpace (digitChar d)" "digitChar d \<noteq> CHR ''-''" "digitChar d \<noteq> CHR ''+''"
    "digitChar d \<noteq> CHR ''x''" "digitChar d \<noteq> CHR ''X''" "isRadixDigit 10 (digitChar d)"
  using assms
  by (auto simp: isWhiteSpace_def digitChar_def char_of_eq_iff isRadixDigit_def digitVal_def Let_def
      take_bit_eq_mod)

lemma natToString_10_digits:
  "natToString 10 k \<noteq> [] \<and> list_all (\<lambda>c. \<exists>d<10. c = digitChar d) (natToString 10 k) \<and>
   digitsValue 10 (natToString 10 k) = k"
proof (induction "10 :: nat" k rule: natToString.induct)
  case (1 k)
  show ?case
  proof (cases "k < 10")
    case True
    then show ?thesis
      by (subst (1 2 3) natToString.simps) (auto simp: digitsValue_def digitVal_digitChar)
  next
    case False
    have m: "k mod 10 < 10" by simp
    from False "1.hyps" have ih: "natToString 10 (k div 10) \<noteq> []"
      "list_all (\<lambda>c. \<exists>d<10. c = digitChar d) (natToString 10 (k div 10))"
      "digitsValue 10 (natToString 10 (k div 10)) = k div 10"
      by simp_all
    have s: "natToString 10 k = natToString 10 (k div 10) @ [digitChar (k mod 10)]"
      using False by (subst natToString.simps) simp
    have "digitsValue 10 (natToString 10 k) = k div 10 * 10 + k mod 10"
      using ih(3) by (simp add: s digitsValue_def digitVal_digitChar)
    moreover have "\<exists>d<10. digitChar (k mod 10) = digitChar d" using m by blast
    ultimately show ?thesis using ih(2) by (simp add: s)
  qed
qed

lemma parseInt_natToString:
  assumes "k < 2 ^ 53"
  shows "parseInt (natToString 10 k) 0 = Fin (int k)"
    "parseInt (CHR ''-'' # natToString 10 k) 0 = Fin (- int k)"
proof -
  define s where "s = natToString 10 k"
  have ne: "s \<noteq> []" and all: "list_all (\<lambda>c. \<exists>d<10. c = digitChar d) s"
    and v: "digitsValue 10 s = k"
    using natToString_10_digits[of k] by (simp_all add: s_def)
  obtain c cs where s: "s = c # cs" using ne by (cases s) auto
  obtain d where d: "d < 10" "c = digitChar d" using all by (auto simp: s)
  have drop: "dropWhile isWhiteSpace s = s"
    using digitChar_decimal_plain(1)[OF d(1)] by (simp add: s d(2))
  have sign: "stripSign s = (False, s)"
    using digitChar_decimal_plain(2,3)[OF d(1)] by (simp add: stripSign_def s d(2))
  have nox: "hasPrefix0x s = False" "stripPrefix0x s = s"
  proof (atomize (full), cases cs)
    case Nil
    then show "hasPrefix0x s = False \<and> stripPrefix0x s = s"
      by (simp add: hasPrefix0x_def stripPrefix0x_def s)
  next
    case (Cons c2 cs2)
    then obtain d' where d': "d' < 10" "c2 = digitChar d'" using all by (auto simp: s)
    have "c2 \<noteq> CHR ''x''" "c2 \<noteq> CHR ''X''"
      using digitChar_decimal_plain(4,5)[OF d'(1)] by (simp_all add: d'(2))
    then show "hasPrefix0x s = False \<and> stripPrefix0x s = s"
      by (simp add: hasPrefix0x_def stripPrefix0x_def s Cons)
  qed
  have tw: "takeWhile (isRadixDigit 10) s = s"
    using all digitChar_decimal_plain(6) by (auto simp: list_all_iff)
  have rd: "roundToDouble k = Some k" using assms by (simp add: roundToDouble_def)
  show "parseInt (natToString 10 k) 0 = Fin (int k)"
    unfolding s_def[symmetric]
    by (simp add: parseInt_def drop sign nox tw v ne toNumber_def rd)
  have drop': "\<not> isWhiteSpace CHR ''-''"
    by (simp add: isWhiteSpace_def)
  have sign': "stripSign (CHR ''-'' # s) = (True, s)"
    by (simp add: stripSign_def)
  show "parseInt (CHR ''-'' # natToString 10 k) 0 = Fin (- int k)"
    unfolding s_def[symmetric]
    by (simp add: parseInt_def drop' sign' nox tw v ne toNumber_def rd)
qed

lemma parseInt_intToString:
  assumes "\<bar>n\<bar> < 2 ^ 53"
  shows "parseInt (intToString n) 0 = Fin n"
proof (cases "n < 0")
  case True
  then have "nat (- n) < 2 ^ 53" using assms by (simp add: nat_less_iff)
  then show ?thesis using True parseInt_natToString(2)[of "nat (- n)"] by (simp add: intToString_def)
next
  case False
  then have "nat n < 2 ^ 53" using assms by (simp add: nat_less_iff)
  then show ?thesis using False parseInt_natToString(1)[of "nat n"] by (simp add: intToString_def)
qed

lemma colorCount_of_integer:
  assumes "\<bar>n\<bar> < 2 ^ 53"
  shows "lengthOf (colorCountOf (CountNumber n)) = (if n = 0 then 5 else nat (max 2 (min 6 n)))"
  by (simp add: colorCountOf_def countToString_def parseInt_intToString[OF assms] orDefault_def
      lengthOf_def)

text \<open>
  Claim C4 says that a count of 0 is clamped to 2. The expression
  \<^verbatim>\<open>parseInt(count) || 5\<close> takes 0 for a missing value, so a count of 0 gives
  five colours, while the counts 1 and 7 are clamped to 2 and 6.
\<close>

theorem count_zero_gives_five:
  "pal_count (fst (generatePalette (opts\<lparr>opt_count := Some (CountNumber 0)\<rparr>) g)) = 5 \<and>
   length (pal_colors (fst (generatePalette (opts\<lparr>opt_count := Some (CountNumber 0)\<rparr>) g))) = 5"
  by (simp add: generatePalette_length(1) generatePalette_count colorCountOf_examples)

section \<open>The first colour of a palette\<close>

text \<open>
  Claim C3 says that for the base colour \<^verbatim>\<open>#3498db\<close> and the harmony
  \<^verbatim>\<open>triadic\<close> the first colour has hex \<^verbatim>\<open>#3498db\<close> and role
  \<^verbatim>\<open>primary\<close>. The base colour goes through integer hue, saturation and
  lightness (204, 70, 53), which convert back to red 51, not 52: the first colour has
  hex \<^verbatim>\<open>#3398db\<close>, with role \<^verbatim>\<open>primary\<close>.
\<close>

theorem base_color_3498db_not_preserved:
  "\<exists>cs. pal_colors (fst (generatePalette
       \<lparr>opt_harmony = Some ''triadic'', opt_count = None,
        opt_baseColor = Some ''#3498db'', opt_angle = None\<rparr> g)) =
     \<lparr>color_hex = ''#3398db'', color_hsl = \<lparr>hsl_h = 204, hsl_s = 70, hsl_l = 53\<rparr>,
      color_role = ''primary''\<rparr> # cs"
  using generatePalette_first[of "\<lparr>opt_harmony = Some ''triadic'', opt_count = None,
        opt_baseColor = Some ''#3498db'', opt_angle = None\<rparr>" "''#3498db''" g]
  by (simp add: hexToHsl_3498db hslToHex_204_70_53)

section \<open>The range of hues\<close>








section \<open>From RGB to HSL and back\<close>





lemma satOf_facts:
  assumes "0 \<le> R" "R \<le> 1" "0 \<le> G" "G \<le> 1" "0 \<le> B" "B \<le> 1"
  defines "mx \<equiv> max R (max G B)" and "mn \<equiv> min R (min G B)"
  shows "0 \<le> satOf R G B" "satOf R G B \<le> 1"
    "(mx - mn) / 2 = satOf R G B * min (ligOf R G B) (1 - ligOf R G B)"
proof -
  define d where "d = mx - mn"
  define L where "L = ligOf R G B"
  have b: "0 \<le> mn" "mn \<le> mx" "mx \<le> 1"
    using assms(1-6) by (auto simp: mx_def mn_def)
  have L: "L = (mx + mn) / 2" by (simp add: L_def ligOf_def mx_def mn_def)
  have S: "satOf R G B = (if mx = mn then 0 else if L > 1 / 2 then d / (2 - mx - mn) else d / (mx + mn))"
    by (simp add: satOf_def Let_def mx_def mn_def d_def L_def)
  show "0 \<le> satOf R G B"
    unfolding S using b by (auto simp: d_def L)
  show "satOf R G B \<le> 1"
    unfolding S using b by (auto simp: d_def L field_simps)
  show "(mx - mn) / 2 = satOf R G B * min (ligOf R G B) (1 - ligOf R G B)"
  proof (cases "mx = mn")
    case True
    then show ?thesis by (simp add: S)
  next
    case False
    then have d: "0 < d" using b by (simp add: d_def)
    show ?thesis
    proof (cases "L > 1 / 2")
      case True
      then have m: "min L (1 - L) = 1 - L" by simp
      have "2 - mx - mn > 0" using d b by (simp add: d_def)
      then show ?thesis
        using False True by (simp add: S m L_def[symmetric]) (simp add: L d_def field_simps)
    next
      case False
      then have m: "min L (1 - L) = L" by simp
      have "mx + mn > 0" using d b by (simp add: d_def)
      then show ?thesis
        using \<open>mx \<noteq> mn\<close> False by (simp add: S m L_def[symmetric]) (simp add: L d_def field_simps)
    qed
  qed
qed






lemma Math_round_error: "\<bar>Math_round x - x\<bar> \<le> 1 / 2"
  using Math_round_bounds[of x] by (simp add: abs_if)

lemma Math_round_scaled:
  assumes "0 < k" "0 \<le> x" "x \<le> 1"
  shows "\<bar>Math_round (x * of_nat k) / of_nat k - x\<bar> \<le> 1 / (2 * of_nat k)"
    "0 \<le> Math_round (x * of_nat k) / of_nat k" "Math_round (x * of_nat k) / of_nat k \<le> 1"
proof -
  have k: "0 < (of_nat k :: real)" using assms(1) by simp
  have "Math_round (x * of_nat k) / of_nat k - x = (Math_round (x * of_nat k) - x * of_nat k) / of_nat k"
    using k by (simp add: field_simps)
  then have "\<bar>Math_round (x * of_nat k) / of_nat k - x\<bar> = \<bar>Math_round (x * of_nat k) - x * of_nat k\<bar> / of_nat k"
    using k by simp
  also have "\<dots> \<le> (1 / 2) / of_nat k"
    by (intro divide_right_mono Math_round_error) (use k in simp)
  finally show "\<bar>Math_round (x * of_nat k) / of_nat k - x\<bar> \<le> 1 / (2 * of_nat k)" by simp
  have "Math_round 0 \<le> Math_round (x * of_nat k)"
    by (rule Math_round_mono) (use assms in simp)
  then show "0 \<le> Math_round (x * of_nat k) / of_nat k" using k by simp
  have "Math_round (x * of_nat k) \<le> Math_round (of_nat k)"
    by (rule Math_round_mono) (use assms k in \<open>simp add: mult_left_le_one_le\<close>)
  moreover have "Math_round (real k) = real k"
    using Math_round_int[of "int k"] by simp
  ultimately show "Math_round (x * of_nat k) / of_nat k \<le> 1" using k by (simp add: field_simps)
qed










section \<open>Well-defined conversions\<close>

text \<open>
  On channels from 0 to 255 no divisor in \<^verbatim>\<open>rgbToHsl\<close> is zero, so the division of the
  model, which is total, is the division of the program there; and the hue, saturation
  and lightness of the result lie in their ranges. With the range of the channels that
  \<^verbatim>\<open>hexToRgb\<close> returns, every base colour string, well-formed or not, gives a hue from
  0 to 360 and a saturation and a lightness from 0 to 100.
\<close>

lemma rgbToHsl_divisors_nonzero:
  assumes "0 \<le> R" "R \<le> 1" "0 \<le> G" "G \<le> 1" "0 \<le> B" "B \<le> 1"
    and "max R (max G B) \<noteq> min R (min G B)"
  shows "max R (max G B) - min R (min G B) \<noteq> 0"
    "ligOf R G B > 1 / 2 \<Longrightarrow> 2 - max R (max G B) - min R (min G B) \<noteq> 0"
    "\<not> ligOf R G B > 1 / 2 \<Longrightarrow> max R (max G B) + min R (min G B) \<noteq> 0"
  using assms by (auto simp: ligOf_def max_def min_def split: if_splits)

lemma rgbToHsl_range:
  assumes "0 \<le> r" "r \<le> 255" "0 \<le> g" "g \<le> 255" "0 \<le> b" "b \<le> 255"
  shows "0 \<le> hsl_h (rgbToHsl r g b)" "hsl_h (rgbToHsl r g b) \<le> 360"
    "0 \<le> hsl_s (rgbToHsl r g b)" "hsl_s (rgbToHsl r g b) \<le> 100"
    "0 \<le> hsl_l (rgbToHsl r g b)" "hsl_l (rgbToHsl r g b) \<le> 100"
proof -
  have u: "0 \<le> r / 255" "r / 255 \<le> 1" "0 \<le> g / 255" "g / 255 \<le> 1" "0 \<le> b / 255" "b / 255 \<le> 1"
    using assms by simp_all
  show "0 \<le> hsl_h (rgbToHsl r g b)" "hsl_h (rgbToHsl r g b) \<le> 360"
    by (rule rgbToHsl_hue_range)+
  have S: "0 \<le> satOf (r / 255) (g / 255) (b / 255)" "satOf (r / 255) (g / 255) (b / 255) \<le> 1"
    using satOf_facts(1,2)[OF u] .
  show "0 \<le> hsl_s (rgbToHsl r g b)" "hsl_s (rgbToHsl r g b) \<le> 100"
    using Math_round_scaled(2,3)[of 100 "satOf (r / 255) (g / 255) (b / 255)"] S
    by (simp_all add: rgbToHsl_unrounded)
  have L: "0 \<le> ligOf (r / 255) (g / 255) (b / 255)" "ligOf (r / 255) (g / 255) (b / 255) \<le> 1"
    using u by (auto simp: ligOf_def)
  show "0 \<le> hsl_l (rgbToHsl r g b)" "hsl_l (rgbToHsl r g b) \<le> 100"
    using Math_round_scaled(2,3)[of 100 "ligOf (r / 255) (g / 255) (b / 255)"] L
    by (simp_all add: rgbToHsl_unrounded)
qed

lemma hexToHsl_range:
  "0 \<le> hsl_h (hexToHsl hex)" "hsl_h (hexToHsl hex) \<le> 360"
  "0 \<le> hsl_s (hexToHsl hex)" "hsl_s (hexToHsl hex) \<le> 100"
  "0 \<le> hsl_l (hexToHsl hex)" "hsl_l (hexToHsl hex) \<le> 100"
proof -
  define n where "n = sint (ToInt32 (parseInt (stripHash hex) 16))"
  have h: "hexToRgb hex =
      \<lparr>rgb_r = of_int (n div 65536 mod 256), rgb_g = of_int (n div 256 mod 256),
       rgb_b = of_int (n mod 256)\<rparr>"
    by (simp add: hexToRgb_channels_of n_def Let_def)
  have r: "0 \<le> real_of_int (k mod 256)" "real_of_int (k mod 256) \<le> 255" for k :: int
  proof -
    define m where "m = k mod 256"
    have m: "0 \<le> m" "m < 256" by (simp_all add: m_def)
    then have "m \<le> 255" by linarith
    then have "real_of_int m \<le> real_of_int 255" by (rule of_int_le_iff[THEN iffD2])
    then show "real_of_int (k mod 256) \<le> 255" by (simp add: m_def)
    show "0 \<le> real_of_int (k mod 256)" by simp
  qed
  note t = rgbToHsl_range[OF r(1) r(2) r(1) r(2) r(1) r(2), of "n div 65536" "n div 256" n]
  have e: "hexToHsl hex = rgbToHsl (real_of_int (n div 65536 mod 256))
      (real_of_int (n div 256 mod 256)) (real_of_int (n mod 256))"
    unfolding hexToHsl_def h Let_def by (simp only: rgb.simps)
  show "0 \<le> hsl_h (hexToHsl hex)" "hsl_h (hexToHsl hex) \<le> 360"
    "0 \<le> hsl_s (hexToHsl hex)" "hsl_s (hexToHsl hex) \<le> 100"
    "0 \<le> hsl_l (hexToHsl hex)" "hsl_l (hexToHsl hex) \<le> 100"
    unfolding e by (rule t)+
qed

end
